theory Spec2Isabelle
  imports Main "HOL-Library.Sublist"
begin

section \<open>Python strings\<close>

text \<open>
  A Python \<open>str\<close> is a sequence of Unicode code points, so it is modelled as a list of
  natural numbers (the code points); \<open>str\<close> embeds an ASCII literal. The characters the
  cleaning code looks at are \<open>60\<close> (less-than sign), \<open>62\<close> (greater-than sign),
  \<open>38\<close> (ampersand), \<open>34\<close> (double quote) and \<open>39\<close> (apostrophe).
\<close>

type_synonym pystr = "nat list"

definition str :: "string \<Rightarrow> pystr" where
  "str s = map of_char s"

text \<open>Python truthiness of an optional string: \<open>None\<close> and the empty string are falsy.\<close>

definition truthy :: "pystr option \<Rightarrow> bool" where
  "truthy v = (case v of None \<Rightarrow> False | Some s \<Rightarrow> s \<noteq> [])"

section \<open>\<open>_clean_html_tags\<close>\<close>

text \<open>
  \<open>match_tag_body cs\<close> matches the regular expression \<open>[^>]+>\<close> at the head of \<open>cs\<close>
  (the part of \<open><[^>]+>\<close> after the opening sign) and yields the text after the match.
  The greedy class takes the longest run of characters other than \<open>62\<close>; the run must
  be non-empty and be followed by \<open>62\<close>. Backtracking cannot help: every shorter run is
  followed by a character other than \<open>62\<close>.
\<close>

definition match_tag_body :: "pystr \<Rightarrow> pystr option" where
  "match_tag_body cs =
     (let run = takeWhile (\<lambda>x. x \<noteq> 62) cs; rest = dropWhile (\<lambda>x. x \<noteq> 62) cs
      in if run \<noteq> [] \<and> rest \<noteq> [] then Some (tl rest) else None)"

lemma match_tag_body_shorter: "match_tag_body cs = Some rest \<Longrightarrow> length rest < Suc (length cs)"
proof -
  assume a: "match_tag_body cs = Some rest"
  have "length (dropWhile (\<lambda>x. x \<noteq> 62) cs) \<le> length cs"
    by (rule length_dropWhile_le)
  moreover from a have "rest = tl (dropWhile (\<lambda>x. x \<noteq> 62) cs)"
    by (simp add: match_tag_body_def Let_def split: if_splits)
  ultimately show ?thesis by simp
qed

text \<open>
  \<open>re.sub(r'<[^>]+>', '', text)\<close>: scan from the left; where a match starts it is dropped
  and the scan goes on after it, any other character is copied.
\<close>

function re_sub_tags :: "pystr \<Rightarrow> pystr" where
  "re_sub_tags [] = []"
| "re_sub_tags (c # cs) =
     (if c = 60 then
        (case match_tag_body cs of
           Some rest \<Rightarrow> re_sub_tags rest
         | None \<Rightarrow> c # re_sub_tags cs)
      else c # re_sub_tags cs)"
  by pat_completeness auto
termination
  by (relation "measure length") (auto dest: match_tag_body_shorter)

text \<open>
  \<open>s.replace(old, new)\<close>: the non-overlapping occurrences of \<open>old\<close> are replaced from the
  left, and the scan goes on after the occurrence (the inserted text is not scanned
  again). For an empty \<open>old\<close> Python inserts \<open>new\<close> before every character and at the end.
\<close>

function str_replace :: "pystr \<Rightarrow> pystr \<Rightarrow> pystr \<Rightarrow> pystr" where
  "str_replace old new [] = (if old = [] then new else [])"
| "str_replace old new (c # cs) =
     (if old = [] then new @ c # str_replace old new cs
      else if prefix old (c # cs) then new @ str_replace old new (drop (length old) (c # cs))
      else c # str_replace old new cs)"
  by pat_completeness auto
termination
  by (relation "measure (\<lambda>(old, new, s). length s)") auto

definition clean_html_tags :: "pystr \<Rightarrow> pystr" where
  "clean_html_tags text =
     (let clean_text = re_sub_tags text;
          clean_text = str_replace (str ''&quot;'') [34] clean_text;
          clean_text = str_replace (str ''&amp;'') [38] clean_text;
          clean_text = str_replace (str ''&lt;'') [60] clean_text;
          clean_text = str_replace (str ''&gt;'') [62] clean_text;
          clean_text = str_replace (str ''&apos;'') [39] clean_text
      in clean_text)"

text \<open>A tag span somewhere in a string: a match of \<open><[^>]+>\<close> starting at some position.\<close>

fun has_tag :: "pystr \<Rightarrow> bool" where
  "has_tag [] = False"
| "has_tag (c # cs) = (if c = 60 \<and> match_tag_body cs \<noteq> None then True else has_tag cs)"

text \<open>The five entities the cleaning decodes, in the order of the source.\<close>

definition entities :: "pystr list" where
  "entities = [str ''&quot;'', str ''&amp;'', str ''&lt;'', str ''&gt;'', str ''&apos;'']"

section \<open>String helpers\<close>

text \<open>\<open>sep.join(xs)\<close>.\<close>

fun join :: "pystr \<Rightarrow> pystr list \<Rightarrow> pystr" where
  "join sep [] = []"
| "join sep [x] = x"
| "join sep (x # y # ys) = x @ sep @ join sep (y # ys)"

text \<open>\<open>str(n)\<close> for an integer: decimal digits, with a minus sign when negative.\<close>

function digits :: "nat \<Rightarrow> pystr" where
  "digits n = (if n < 10 then [48 + n] else digits (n div 10) @ [48 + n mod 10])"
  by pat_completeness auto
termination
  by (relation "measure id") auto

definition str_of_int :: "int \<Rightarrow> pystr" where
  "str_of_int i = (if i < 0 then 45 # digits (nat (- i)) else digits (nat i))"

text \<open>A keyword argument with a default value: \<open>None\<close> stands for an omitted argument.\<close>

definition dflt :: "'a \<Rightarrow> 'a option \<Rightarrow> 'a" where
  "dflt d v = (case v of None \<Rightarrow> d | Some x \<Rightarrow> x)"

text \<open>\<open>d.get(key, default)\<close> on a dictionary with string values.\<close>

definition dict_get :: "(pystr \<rightharpoonup> pystr) \<Rightarrow> pystr \<Rightarrow> pystr \<Rightarrow> pystr" where
  "dict_get d key fallback = (case d key of None \<Rightarrow> fallback | Some v \<Rightarrow> v)"

section \<open>Data of the server\<close>

text \<open>\<open>TextContent(type=..., text=...)\<close>; every response of a tool is a list of these.\<close>

datatype TextContent = TextContent (content_type: pystr) (content_text: pystr)

definition text_content :: "pystr \<Rightarrow> TextContent" where
  "text_content t = TextContent (str ''text'') t"

text \<open>
  A raised exception, with its class name and \<open>str(e)\<close>. \<open>Exception\<close> is an instance of
  (a subclass of) Python's \<open>Exception\<close>, which is what \<open>except Exception\<close> catches;
  \<open>BaseException\<close> is an exception that is no \<open>Exception\<close>: the cancellation of the task
  (\<open>asyncio.CancelledError\<close>), \<open>KeyboardInterrupt\<close>, \<open>SystemExit\<close>. \<open>aiohttp.ClientError\<close>
  is kept apart in \<open>outcome\<close>, because the handlers catch it on its own.
\<close>

datatype exn =
  Exception (exn_class: pystr) (exn_str: pystr)
| BaseException (exn_class: pystr) (exn_str: pystr)

datatype 'a outcome = ClientError pystr | Raised exn | Returned 'a

text \<open>
  The JSON body of the search API: \<open>{total, start, display, items: [...]}\<close>, every key
  optional (the code reads them with \<open>get\<close> and a default); an item is a dictionary from
  keys to strings. A body whose values have other types makes the code raise; that is
  the \<open>Raised\<close> outcome of reading the body.
\<close>

type_synonym json_item = "pystr \<rightharpoonup> pystr"

datatype json_body =
  JsonBody (json_total: "int option") (json_start: "int option") (json_display: "int option")
    (json_items: "json_item list option")

text \<open>
  An HTTP response: its status, and what \<open>await response.text()\<close> and
  \<open>await response.json()\<close> give when they are called.
\<close>

datatype response =
  Response (status: int) (body_text: "pystr outcome") (body_json: "json_body outcome")

record http_params =
  query :: pystr
  display :: int
  start :: int
  sort_order :: pystr

record http_headers =
  X_Naver_Client_Id :: pystr
  X_Naver_Client_Secret :: pystr

text \<open>The dictionaries collected by \<open>_generate_news_report\<close> in \<open>all_articles\<close>.\<close>

record article =
  title :: pystr
  description :: pystr
  originallink :: pystr
  link :: pystr
  pubDate :: pystr
  search_query :: pystr

text \<open>
  The dictionaries collected by \<open>_search_and_summarize_news\<close> in \<open>all_news_data\<close>; the
  two Hangul keys of the source are \<open>news_title\<close> and \<open>news_body\<close> here.
\<close>

record news_data =
  news_id :: pystr
  keyword :: pystr
  news_title :: pystr
  news_body :: pystr
  news_link :: pystr
  news_pubDate :: pystr

record category =
  cat_name :: pystr
  cat_keywords :: "pystr list"
  cat_description :: pystr

text \<open>
  Outbound calls, in the order they are made: a GET on the search endpoint with its
  headers and parameters, or a completion request of \<open>_summarize_with_claude\<close>.
\<close>

datatype event =
  HttpGet http_headers http_params
| Completion "news_data list" "pystr list option"

text \<open>
  The mutable state: whether \<open>self.session\<close> holds an open client session, and the
  outbound calls made so far.
\<close>

record world =
  session :: bool
  events :: "event list"

text \<open>
  The server object and its surroundings. The three credentials are what \<open>__init__\<close>
  reads from the environment. \<open>session_get\<close> is the search endpoint: the outcome of
  \<open>self.session.get\<close>, which may depend on the calls made before. \<open>summarize_with_claude\<close>
  is the outcome of \<open>_summarize_with_claude\<close> (one completion request and the rendering
  of its answer). \<open>format_news_results\<close> and \<open>build_report\<close> are the two rendering
  functions of the source; no property below depends on what they render, so they are
  left open.
\<close>

record env =
  client_id :: "pystr option"
  client_secret :: "pystr option"
  claude_api_key :: "pystr option"
  session_get :: "event list \<Rightarrow> http_headers \<Rightarrow> http_params \<Rightarrow> response outcome"
  summarize_with_claude :: "event list \<Rightarrow> news_data list \<Rightarrow> pystr list option \<Rightarrow> exn + pystr"
  format_news_results :: "json_body \<Rightarrow> pystr \<Rightarrow> exn + TextContent list"
  build_report :: "pystr \<Rightarrow> pystr list \<Rightarrow> article list \<Rightarrow> bool \<Rightarrow> pystr"

text \<open>\<open>__init__\<close> creates \<open>self.claude_client\<close> only when the key is set and non-empty.\<close>

definition claude_client :: "env \<Rightarrow> bool" where
  "claude_client env = truthy (claude_api_key env)"

section \<open>The category registry\<close>

definition NEWS_CATEGORIES :: "(pystr \<times> category) list" where
  "NEWS_CATEGORIES =
      [(str ''politics'',
        \<lparr>cat_name = [51221, 52824],
         cat_keywords =
           [[51221, 52824],
            [44397, 54924],
            [45824, 53685, 47161],
            [51221, 45817],
            [49440, 44144]],
         cat_description =
           [51221, 52824, 44, 32, 44397, 54924, 44, 32, 51221, 45817, 32, 44288, 47144, 32,
           45684, 49828]\<rparr>),
       (str ''economy'',
        \<lparr>cat_name = [44221, 51228],
         cat_keywords =
           [[44221, 51228],
            [51452, 49885],
            [48512, 46041, 49328],
            [44552, 50997],
            [44592, 50629]],
         cat_description =
           [44221, 51228, 44, 32, 44552, 50997, 44, 32, 51613, 49884, 44, 32, 48512, 46041,
           49328, 32, 44288, 47144, 32, 45684, 49828]\<rparr>),
       (str ''society'',
        \<lparr>cat_name = [49324, 54924],
         cat_keywords =
           [[49324, 54924],
            [49324, 44148],
            [49324, 44256],
            [44368, 50977],
            [54872, 44221]],
         cat_description =
           [49324, 54924, 44, 32, 44368, 50977, 44, 32, 54872, 44221, 44, 32, 49324, 44148,
           49324, 44256, 32, 44288, 47144, 32, 45684, 49828]\<rparr>),
       (str ''culture'',
        \<lparr>cat_name = [49373, 54876, 47, 47928, 54868],
         cat_keywords =
           [[47928, 54868],
            [50668, 54665],
            [51020, 49885],
            [44148, 44053],
            [54056, 49496]],
         cat_description =
           [49373, 54876, 44, 32, 47928, 54868, 44, 32, 50668, 54665, 44, 32, 44148, 44053,
           32, 44288, 47144, 32, 45684, 49828]\<rparr>),
       (str ''tech'',
        \<lparr>cat_name = str ''IT/'' @ [44284, 54617],
         cat_keywords =
           [[73, 84],
            [44284, 54617],
            [44592, 49696],
            [65, 73],
            [49828, 47560, 53944, 54256]],
         cat_description =
           str ''IT, '' @ [44284, 54617, 44, 32, 44592, 49696, 44, 32, 51064, 44277, 51648,
           45733, 32, 44288, 47144, 32, 45684, 49828]\<rparr>),
       (str ''world'',
        \<lparr>cat_name = [49464, 44228],
         cat_keywords =
           [[44397, 51228],
            [49464, 44228],
            [48120, 44397],
            [51473, 44397],
            [51068, 48376]],
         cat_description =
           [44397, 51228, 44, 32, 49464, 44228, 32, 44033, 44397, 32, 44288, 47144, 32,
           45684, 49828]\<rparr>),
       (str ''sports'',
        \<lparr>cat_name = [49828, 54252, 52768],
         cat_keywords =
           [[49828, 54252, 52768],
            [52629, 44396],
            [50556, 44396],
            [45453, 44396],
            [50732, 47548, 54589]],
         cat_description =
           [49828, 54252, 52768, 44, 32, 54532, 47196, 50556, 44396, 44, 32, 52629, 44396,
           44, 32, 50732, 47548, 54589, 32, 44288, 47144, 32, 45684, 49828]\<rparr>),
       (str ''entertainment'',
        \<lparr>cat_name = [50672, 50696],
         cat_keywords =
           [[50672, 50696],
            [46300, 46972, 47560],
            [50689, 54868],
            str ''K-POP'',
            [50500, 51060, 46028]],
         cat_description =
           [50672, 50696, 44, 32, 46300, 46972, 47560, 44, 32, 50689, 54868] @
           str '', K-POP '' @ [44288, 47144, 32, 45684, 49828]\<rparr>)]"

section \<open>Messages\<close>

definition msg_no_naver_credentials :: pystr where
  "msg_no_naver_credentials =
     [50724, 47448, 58, 32, 45348, 51060, 48260] @ str '' API '' @ [51088, 44201, 32, 51613,
     47749, 51060, 32, 49444, 51221, 46104, 51648, 32, 50506, 50520, 49845, 45768, 45796,
     46, 32, 54872, 44221, 32, 48320, 49688] @ str '' news_client_id'' @ [50752] @
     str '' news_client_secret'' @ [51012, 32, 49444, 51221, 54644, 51452, 49464, 50836, 46]"

definition msg_no_claude_key :: pystr where
  "msg_no_claude_key =
     [50724, 47448] @ str '': Claude API '' @ [53412, 44032, 32, 49444, 51221, 46104, 51648,
     32, 50506, 50520, 49845, 45768, 45796, 46, 32, 54872, 44221, 32, 48320, 49688] @
     str '' claude_api_key'' @ [47484, 32, 49444, 51221, 54644, 51452, 49464, 50836, 46]"

definition msg_api_error :: "int \<Rightarrow> pystr \<Rightarrow> pystr" where
  "msg_api_error code error_text =
     str ''API '' @ [50724, 47448, 32, 40, 49345, 53468, 32, 53076, 46300, 58, 32] @ str_of_int code @
     str ''): '' @ error_text"

definition msg_network_error :: "pystr \<Rightarrow> pystr" where
  "msg_network_error e =
     [45348, 53944, 50892, 53356, 32, 50724, 47448, 58, 32] @ e"

definition msg_unknown_category :: "pystr \<Rightarrow> pystr \<Rightarrow> pystr" where
  "msg_unknown_category category available =
     [50724, 47448, 58, 32, 50508, 32, 49688, 32, 50630, 45716, 32, 52852, 53580, 44256,
     47532, 32, 39] @ category @
     [39, 46, 32, 49324, 50857, 32, 44032, 45733, 54620, 32, 52852, 53580, 44256, 47532, 58,
     32] @ available"

definition msg_no_articles :: "pystr \<Rightarrow> pystr" where
  "msg_no_articles topic =
     [39] @ topic @
     [39, 50640, 32, 45824, 54620, 32, 45684, 49828, 32, 44592, 49324, 47484, 32, 52286,
     51012, 32, 49688, 32, 50630, 49845, 45768, 45796, 46]"

definition msg_no_news :: "pystr list \<Rightarrow> pystr" where
  "msg_no_news keywords =
     [44160, 49353, 46108, 32, 45684, 49828, 44032, 32, 50630, 49845, 45768, 45796, 46, 32,
     53412, 50892, 46300, 58, 32] @ join (str '', '') keywords"

definition msg_summary_error :: "pystr \<Rightarrow> pystr" where
  "msg_summary_error e =
     [50836, 50557, 32, 49373, 49457, 32, 51473, 32, 50724, 47448, 44032, 32, 48156, 49373,
     54664, 49845, 45768, 45796, 58, 32] @ e"

section \<open>The handlers\<close>

type_synonym 'a result = "(exn + 'a) \<times> world"

definition ensure_session :: "world \<Rightarrow> world" where
  "ensure_session w = (if \<not> session w then w\<lparr>session := True\<rparr> else w)"

definition naver_headers :: "env \<Rightarrow> http_headers" where
  "naver_headers env =
     \<lparr>X_Naver_Client_Id = dflt [] (client_id env),
      X_Naver_Client_Secret = dflt [] (client_secret env)\<rparr>"

definition search_news ::
  "env \<Rightarrow> pystr \<Rightarrow> int option \<Rightarrow> int option \<Rightarrow> pystr option \<Rightarrow> world \<Rightarrow> TextContent list result" where
  "search_news env query' display' start' sort' w0 =
     (let w = ensure_session w0 in
      if \<not> truthy (client_id env) \<or> \<not> truthy (client_secret env) then
        (Inr [text_content msg_no_naver_credentials], w)
      else
        let display' = max 1 (min (dflt 10 display') 100);
            start' = max 1 (min (dflt 1 start') 1000);
            sort' = (if dflt (str ''sim'') sort' \<notin> set [str ''sim'', str ''date'']
                     then str ''sim'' else dflt (str ''sim'') sort');
            headers = naver_headers env;
            params = \<lparr>query = query', display = display', start = start', sort_order = sort'\<rparr>;
            w' = w\<lparr>events := events w @ [HttpGet headers params]\<rparr>
        in (case session_get env (events w) headers params of
              ClientError e \<Rightarrow> Inr [text_content (msg_network_error e)]
            | Raised e \<Rightarrow> Inl e
            | Returned response \<Rightarrow>
                if status response \<noteq> 200 then
                  (case body_text response of
                     ClientError e \<Rightarrow> Inr [text_content (msg_network_error e)]
                   | Raised e \<Rightarrow> Inl e
                   | Returned error_text \<Rightarrow>
                       Inr [text_content (msg_api_error (status response) error_text)])
                else
                  (case body_json response of
                     ClientError e \<Rightarrow> Inr [text_content (msg_network_error e)]
                   | Raised e \<Rightarrow> Inl e
                   | Returned data \<Rightarrow> format_news_results env data query'),
            w'))"



definition get_category_news ::
  "env \<Rightarrow> pystr \<Rightarrow> int option \<Rightarrow> pystr option \<Rightarrow> world \<Rightarrow> TextContent list result" where
  "get_category_news env category' display' sort' w =
     (case map_of NEWS_CATEGORIES category' of
        None \<Rightarrow>
          (let available = join (str '', '') (map fst NEWS_CATEGORIES)
           in (Inr [text_content (msg_unknown_category category' available)], w))
      | Some cat_info \<Rightarrow>
          (case cat_keywords cat_info of
             [] \<Rightarrow> (Inl (Exception (str ''IndexError'') (str ''list index out of range'')), w)
           | query' # _ \<Rightarrow>
               search_news env query' (Some (dflt 10 display')) None
                 (Some (dflt (str ''date'') sort')) w))"

text \<open>
  The body of the \<open>try\<close> in both query loops, up to the items to go through: the GET, the
  status check and the reading of \<open>items\<close>. A \<open>ClientError\<close> is logged and the loop goes on
  to the next query (no items); a status other than 200 gives no items either; any
  other exception leaves the handler.
\<close>

definition fetch_items :: "env \<Rightarrow> event list \<Rightarrow> http_headers \<Rightarrow> http_params \<Rightarrow> exn + json_item list" where
  "fetch_items env history headers params =
     (case session_get env history headers params of
        ClientError e \<Rightarrow> Inr []
      | Raised e \<Rightarrow> Inl e
      | Returned response \<Rightarrow>
          if status response = 200 then
            (case body_json response of
               ClientError e \<Rightarrow> Inr []
             | Raised e \<Rightarrow> Inl e
             | Returned data \<Rightarrow> Inr (dflt [] (json_items data)))
          else Inr [])"

text \<open>The inner loop of \<open>_generate_news_report\<close> over the items of one response.\<close>

fun add_items ::
  "pystr \<Rightarrow> json_item list \<Rightarrow> pystr set \<times> article list \<Rightarrow> pystr set \<times> article list" where
  "add_items query' [] (seen_titles, all_articles) = (seen_titles, all_articles)"
| "add_items query' (item # items) (seen_titles, all_articles) =
     (let title' = clean_html_tags (dict_get item (str ''title'') [])
      in if title' \<noteq> [] \<and> title' \<notin> seen_titles then
           add_items query' items
             (insert title' seen_titles,
              all_articles @
                [\<lparr>title = title',
                  description = clean_html_tags (dict_get item (str ''description'') []),
                  originallink = dict_get item (str ''originallink'') [],
                  link = dict_get item (str ''link'') [],
                  pubDate = dict_get item (str ''pubDate'') [],
                  search_query = query'\<rparr>])
         else add_items query' items (seen_titles, all_articles))"

text \<open>The loop of \<open>_generate_news_report\<close> over \<open>search_queries\<close>.\<close>

fun report_loop ::
  "env \<Rightarrow> http_headers \<Rightarrow> int \<Rightarrow> pystr list \<Rightarrow> pystr set \<times> article list \<Rightarrow> world
     \<Rightarrow> (pystr set \<times> article list) result" where
  "report_loop env headers articles_per_query [] acc w = (Inr acc, w)"
| "report_loop env headers articles_per_query (query' # rest) acc w =
     (let params = \<lparr>query = query', display = min articles_per_query 100, start = 1,
                     sort_order = str ''date''\<rparr>;
          w' = w\<lparr>events := events w @ [HttpGet headers params]\<rparr>
      in case fetch_items env (events w) headers params of
           Inl e \<Rightarrow> (Inl e, w')
         | Inr items \<Rightarrow>
             report_loop env headers articles_per_query rest (add_items query' items acc) w')"

definition clamp_num_articles :: "int option \<Rightarrow> int" where
  "clamp_num_articles num_articles = max 5 (min (dflt 15 num_articles) 50)"

definition search_queries :: "pystr \<Rightarrow> pystr list option \<Rightarrow> pystr list" where
  "search_queries topic keywords =
     [topic] @ (case keywords of None \<Rightarrow> [] | Some ks \<Rightarrow> if ks \<noteq> [] then take 3 ks else [])"

definition articles_per_query :: "pystr \<Rightarrow> pystr list option \<Rightarrow> int option \<Rightarrow> int" where
  "articles_per_query topic keywords num_articles =
     max 5 (clamp_num_articles num_articles div int (length (search_queries topic keywords)))"

definition generate_news_report ::
  "env \<Rightarrow> pystr \<Rightarrow> pystr list option \<Rightarrow> int option \<Rightarrow> bool option \<Rightarrow> world \<Rightarrow> TextContent list result" where
  "generate_news_report env topic keywords num_articles include_links w0 =
     (let w = ensure_session w0 in
      if \<not> truthy (client_id env) \<or> \<not> truthy (client_secret env) then
        (Inr [text_content msg_no_naver_credentials], w)
      else
        case report_loop env (naver_headers env) (articles_per_query topic keywords num_articles)
               (search_queries topic keywords) ({}, []) w of
          (Inl e, w') \<Rightarrow> (Inl e, w')
        | (Inr (seen_titles, all_articles), w') \<Rightarrow>
            if all_articles = [] then (Inr [text_content (msg_no_articles topic)], w')
            else
              let all_articles = take (nat (clamp_num_articles num_articles)) all_articles;
                  report = build_report env topic (search_queries topic keywords) all_articles
                             (dflt True include_links)
              in (Inr [text_content report], w'))"

text \<open>
  The inner loop of \<open>_search_and_summarize_news\<close>: \<open>enumerate(items, 1)\<close>, with \<open>idx\<close> the
  number of the next item.
\<close>

fun add_news :: "pystr \<Rightarrow> int \<Rightarrow> json_item list \<Rightarrow> news_data list \<Rightarrow> news_data list" where
  "add_news keyword' idx [] all_news_data = all_news_data"
| "add_news keyword' idx (item # items) all_news_data =
     add_news keyword' (idx + 1) items
       (all_news_data @
          [\<lparr>news_id = keyword' @ [95] @ str_of_int idx,
            keyword = keyword',
            news_title = clean_html_tags (dict_get item (str ''title'') []),
            news_body = clean_html_tags (dict_get item (str ''description'') []),
            news_link = (if dict_get item (str ''originallink'') [] \<noteq> []
                         then dict_get item (str ''originallink'') []
                         else dict_get item (str ''link'') []),
            news_pubDate = dict_get item (str ''pubDate'') []\<rparr>])"

text \<open>The loop of \<open>_search_and_summarize_news\<close> over \<open>keywords\<close>.\<close>

fun summarize_loop ::
  "env \<Rightarrow> http_headers \<Rightarrow> int \<Rightarrow> pystr list \<Rightarrow> news_data list \<Rightarrow> world \<Rightarrow> news_data list result" where
  "summarize_loop env headers num_articles [] all_news_data w = (Inr all_news_data, w)"
| "summarize_loop env headers num_articles (keyword' # rest) all_news_data w =
     (let params = \<lparr>query = keyword', display = num_articles, start = 1,
                     sort_order = str ''date''\<rparr>;
          w' = w\<lparr>events := events w @ [HttpGet headers params]\<rparr>
      in case fetch_items env (events w) headers params of
           Inl e \<Rightarrow> (Inl e, w')
         | Inr items \<Rightarrow>
             summarize_loop env headers num_articles rest
               (add_news keyword' 1 items all_news_data) w')"

definition search_and_summarize_news ::
  "env \<Rightarrow> pystr list \<Rightarrow> int option \<Rightarrow> bool option \<Rightarrow> world \<Rightarrow> TextContent list result" where
  "search_and_summarize_news env keywords num_articles include_keyword_curation w0 =
     (let w = ensure_session w0 in
      if \<not> truthy (client_id env) \<or> \<not> truthy (client_secret env) then
        (Inr [text_content msg_no_naver_credentials], w)
      else if \<not> claude_client env then
        (Inr [text_content msg_no_claude_key], w)
      else
        let num_articles = max 1 (min (dflt 5 num_articles) 10);
            keywords = take 5 keywords
        in case summarize_loop env (naver_headers env) num_articles keywords [] w of
             (Inl e, w') \<Rightarrow> (Inl e, w')
           | (Inr all_news_data, w') \<Rightarrow>
               if all_news_data = [] then (Inr [text_content (msg_no_news keywords)], w')
               else
                 let curation = (if dflt True include_keyword_curation then Some keywords else None);
                     w'' = w'\<lparr>events := events w' @ [Completion all_news_data curation]\<rparr>
                 in (case summarize_with_claude env (events w') all_news_data curation of
                       Inl (Exception c e) \<Rightarrow> Inr [text_content (msg_summary_error e)]
                     | Inl (BaseException c e) \<Rightarrow> Inl (BaseException c e)
                     | Inr summary_result \<Rightarrow> Inr [text_content summary_result],
                     w''))"

section \<open>The dispatcher\<close>
























section \<open>What the report aggregation is meant to compute\<close>

text \<open>The dictionary \<open>_generate_news_report\<close> builds for one item of the query \<open>q\<close>.\<close>

definition make_article :: "pystr \<Rightarrow> json_item \<Rightarrow> article" where
  "make_article q item =
     \<lparr>title = clean_html_tags (dict_get item (str ''title'') []),
      description = clean_html_tags (dict_get item (str ''description'') []),
      originallink = dict_get item (str ''originallink'') [],
      link = dict_get item (str ''link'') [],
      pubDate = dict_get item (str ''pubDate'') [],
      search_query = q\<rparr>"

text \<open>
  What the queries of a report got, in query order: each query with the items of its
  response (none for a query that failed with a \<open>ClientError\<close> or a status other than
  200). The list stops where a query raises anything else.
\<close>

fun fetched ::
  "env \<Rightarrow> http_headers \<Rightarrow> int \<Rightarrow> pystr list \<Rightarrow> world \<Rightarrow> (pystr \<times> json_item list) list" where
  "fetched env headers per_query [] w = []"
| "fetched env headers per_query (q # rest) w =
     (let params = \<lparr>query = q, display = min per_query 100, start = 1,
                     sort_order = str ''date''\<rparr>;
          w' = w\<lparr>events := events w @ [HttpGet headers params]\<rparr>
      in case fetch_items env (events w) headers params of
           Inl e \<Rightarrow> []
         | Inr items \<Rightarrow> (q, items) # fetched env headers per_query rest w')"

definition candidates :: "(pystr \<times> json_item list) list \<Rightarrow> article list" where
  "candidates got = concat (map (\<lambda>(q, items). map (make_article q) items) got)"

text \<open>Keep the first article of every title, in the order of the list.\<close>

fun dedup_titles :: "article list \<Rightarrow> article list" where
  "dedup_titles [] = []"
| "dedup_titles (a # as) = a # dedup_titles (filter (\<lambda>b. title b \<noteq> title a) as)"

text \<open>
  The same selection written with the set of titles seen so far, as the loop keeps it.
\<close>

fun dedup_from :: "pystr set \<Rightarrow> article list \<Rightarrow> article list" where
  "dedup_from S [] = []"
| "dedup_from S (a # as) =
     (if title a \<in> S then dedup_from S as else a # dedup_from (insert (title a) S) as)"

text \<open>
  The deduplicated accumulation in first-seen order: the articles with a non-empty
  cleaned title, the first of every title kept.
\<close>

definition first_seen :: "(pystr \<times> json_item list) list \<Rightarrow> article list" where
  "first_seen got = dedup_titles (filter (\<lambda>a. title a \<noteq> []) (candidates got))"

text \<open>The first query, in query order, whose response holds an item with cleaned title \<open>t\<close>.\<close>

definition produces :: "pystr \<Rightarrow> pystr \<times> json_item list \<Rightarrow> bool" where
  "produces t qi = (t \<in> set (map (\<lambda>item. clean_html_tags (dict_get item (str ''title'') [])) (snd qi)))"

definition first_query_for :: "pystr \<Rightarrow> (pystr \<times> json_item list) list \<Rightarrow> pystr option" where
  "first_query_for t got = map_option fst (find (produces t) got)"

definition report_fetched ::
  "env \<Rightarrow> pystr \<Rightarrow> pystr list option \<Rightarrow> int option \<Rightarrow> world \<Rightarrow> (pystr \<times> json_item list) list" where
  "report_fetched env topic keywords num_articles w0 =
     fetched env (naver_headers env) (articles_per_query topic keywords num_articles)
       (search_queries topic keywords) (ensure_session w0)"

text \<open>
  The aggregation result of a report: the value of \<open>all_articles\<close> after the truncation,
  as it is handed to \<open>_build_report\<close>; \<open>None\<close> where the handler has no such value
  (credentials missing, or an exception left the query loop).
\<close>

definition aggregation_result ::
  "env \<Rightarrow> pystr \<Rightarrow> pystr list option \<Rightarrow> int option \<Rightarrow> world \<Rightarrow> article list option" where
  "aggregation_result env topic keywords num_articles w0 =
     (if \<not> truthy (client_id env) \<or> \<not> truthy (client_secret env) then None
      else
        case report_loop env (naver_headers env) (articles_per_query topic keywords num_articles)
               (search_queries topic keywords) ({}, []) (ensure_session w0) of
          (Inl e, w') \<Rightarrow> None
        | (Inr (seen_titles, all_articles), w') \<Rightarrow>
            Some (take (nat (clamp_num_articles num_articles)) all_articles))"

text \<open>The request \<open>_search_and_summarize_news\<close> makes for one keyword.\<close>

definition keyword_request :: "http_headers \<Rightarrow> int \<Rightarrow> pystr \<Rightarrow> event" where
  "keyword_request headers n q =
     HttpGet headers \<lparr>query = q, display = n, start = 1, sort_order = str ''date''\<rparr>"

text \<open>What a trace shows of one outbound call: the query and the count of a GET.\<close>

fun event_request :: "event \<Rightarrow> (pystr \<times> int) option" where
  "event_request (HttpGet headers params) = Some (query params, display params)"
| "event_request (Completion news curation) = None"

section \<open>A concrete server for the examples\<close>

text \<open>
  An upstream that answers every query with status 200: five titles for \<open>topic\<close>, the
  title \<open>X\<close> (code point 88) for both \<open>k1\<close> and \<open>k2\<close>, among them a repeated and an empty
  title, twenty-five distinct titles for \<open>many\<close>, and nothing for any other query.
\<close>

definition demo_titles :: "pystr \<Rightarrow> pystr list" where
  "demo_titles q =
     (if q = str ''topic'' then [[97], [98], [99], [100], [101]]
      else if q = str ''k1'' then [[88], [97]]
      else if q = str ''k2'' then [[88], [], [102]]
      else if q = str ''many'' then
         [[65, 97], [65, 98], [65, 99], [65, 100], [65, 101], [65, 102], [65, 103],
          [65, 104], [65, 105], [65, 106], [65, 107], [65, 108], [65, 109], [65, 110],
          [65, 111], [65, 112], [65, 113], [65, 114], [65, 115], [65, 116], [65, 117],
          [65, 118], [65, 119], [65, 120], [65, 121]]
      else [])"

definition demo_item :: "pystr \<Rightarrow> json_item" where
  "demo_item t = [str ''title'' \<mapsto> t]"

definition demo_env :: env where
  "demo_env =
     \<lparr>client_id = Some (str ''id''),
      client_secret = Some (str ''secret''),
      claude_api_key = Some (str ''key''),
      session_get = (\<lambda>history headers params.
        Returned (Response 200 (Returned [])
          (Returned (JsonBody None None None (Some (map demo_item (demo_titles (query params)))))))),
      summarize_with_claude = (\<lambda>history news curation. Inr (str ''summary'')),
      format_news_results = (\<lambda>data q. Inr [text_content q]),
      build_report = (\<lambda>topic queries articles include_links. join [10] (map title articles))\<rparr>"

definition world0 :: world where
  "world0 = \<lparr>session = False, events = []\<rparr>"






text \<open>
  The example of the specification: a title with bold tags, Hangul text and two
  \<open>&quot;\<close> entities, and the text expected after cleaning.
\<close>

definition example_raw :: pystr where
  "example_raw = [60, 98, 62, 49340, 49457, 51204, 51088, 60, 47, 98, 62, 32, 49892, 51201, 32,
     38, 113, 117, 111, 116, 59, 54840, 51312, 38, 113, 117, 111, 116, 59]"

definition example_clean :: pystr where
  "example_clean = [49340, 49457, 51204, 51088, 32, 49892, 51201, 32, 34, 54840, 51312, 34]"


section \<open>Properties of the cleaning\<close>

lemma match_tag_body_Some_iff:
  "match_tag_body cs = Some rest \<longleftrightarrow>
     (\<exists>body. cs = body @ 62 # rest \<and> body \<noteq> [] \<and> 62 \<notin> set body)"
proof
  assume a: "match_tag_body cs = Some rest"
  let ?run = "takeWhile (\<lambda>x. x \<noteq> 62) cs"
  let ?dw = "dropWhile (\<lambda>x. x \<noteq> 62) cs"
  from a have run: "?run \<noteq> []" and dw: "?dw \<noteq> []" and rest: "rest = tl ?dw"
    by (simp_all add: match_tag_body_def Let_def split: if_splits)
  from dw have "hd ?dw = 62"
    using hd_dropWhile [of "\<lambda>x. x \<noteq> 62" cs] by simp
  with dw rest have "?dw = 62 # rest"
    by (cases ?dw) simp_all
  then have "cs = ?run @ 62 # rest"
    using takeWhile_dropWhile_id [of "\<lambda>x. x \<noteq> 62" cs] by simp
  moreover have "62 \<notin> set ?run"
    using set_takeWhileD [of 62 "\<lambda>x. x \<noteq> 62" cs] by blast
  ultimately show "\<exists>body. cs = body @ 62 # rest \<and> body \<noteq> [] \<and> 62 \<notin> set body"
    using run by blast
next
  assume "\<exists>body. cs = body @ 62 # rest \<and> body \<noteq> [] \<and> 62 \<notin> set body"
  then obtain body where cs: "cs = body @ 62 # rest" and ne: "body \<noteq> []"
    and nin: "62 \<notin> set body" by blast
  from nin have tw: "takeWhile (\<lambda>x. x \<noteq> 62) (body @ 62 # rest) = body"
    by (induction body) auto
  from nin have dw: "dropWhile (\<lambda>x. x \<noteq> 62) (body @ 62 # rest) = 62 # rest"
    by (induction body) auto
  show "match_tag_body cs = Some rest"
    using ne by (simp add: match_tag_body_def Let_def cs tw dw)
qed

lemma match_tag_body_None_iff:
  "match_tag_body cs = None \<longleftrightarrow> (cs = [] \<or> hd cs = 62 \<or> 62 \<notin> set cs)"
proof (cases cs)
  case Nil
  then show ?thesis by (simp add: match_tag_body_def)
next
  case (Cons d ds)
  show ?thesis
  proof (cases "d = 62")
    case True
    with Cons show ?thesis by (simp add: match_tag_body_def)
  next
    case False
    have "dropWhile (\<lambda>x. x \<noteq> 62) ds = [] \<longleftrightarrow> 62 \<notin> set ds"
      by (auto simp: dropWhile_eq_Nil_conv)
    with False Cons show ?thesis by (auto simp: match_tag_body_def)
  qed
qed

lemma has_tag_iff:
  "has_tag s \<longleftrightarrow>
     (\<exists>pre body post. s = pre @ 60 # body @ 62 # post \<and> body \<noteq> [] \<and> 62 \<notin> set body)"
proof (induction s)
  case Nil
  then show ?case by simp
next
  case (Cons c cs)
  show ?case
  proof
    assume h: "has_tag (c # cs)"
    show "\<exists>pre body post. c # cs = pre @ 60 # body @ 62 # post \<and> body \<noteq> [] \<and> 62 \<notin> set body"
    proof (cases "c = 60 \<and> match_tag_body cs \<noteq> None")
      case True
      then obtain rest where "match_tag_body cs = Some rest" by auto
      then obtain body where "cs = body @ 62 # rest" "body \<noteq> []" "62 \<notin> set body"
        using match_tag_body_Some_iff by blast
      with True have "c # cs = [] @ 60 # body @ 62 # rest \<and> body \<noteq> [] \<and> 62 \<notin> set body"
        by simp
      then show ?thesis by blast
    next
      case False
      with h have "has_tag cs" by (simp split: if_splits)
      with Cons.IH obtain pre body post
        where "cs = pre @ 60 # body @ 62 # post" "body \<noteq> []" "62 \<notin> set body" by blast
      then have "c # cs = (c # pre) @ 60 # body @ 62 # post \<and> body \<noteq> [] \<and> 62 \<notin> set body"
        by simp
      then show ?thesis by blast
    qed
  next
    assume "\<exists>pre body post. c # cs = pre @ 60 # body @ 62 # post \<and> body \<noteq> [] \<and> 62 \<notin> set body"
    then obtain pre body post
      where eq: "c # cs = pre @ 60 # body @ 62 # post" and ne: "body \<noteq> []"
        and nin: "62 \<notin> set body" by blast
    show "has_tag (c # cs)"
    proof (cases pre)
      case Nil
      with eq have c: "c = 60" and cs: "cs = body @ 62 # post" by simp_all
      from cs ne nin have "match_tag_body cs = Some post"
        using match_tag_body_Some_iff by blast
      with c show ?thesis by simp
    next
      case (Cons p ps)
      with eq have "cs = ps @ 60 # body @ 62 # post" by simp
      with ne nin Cons.IH have "has_tag cs" by blast
      then show ?thesis by simp
    qed
  qed
qed

lemma set_re_sub_tags: "set (re_sub_tags s) \<subseteq> set s"
proof (induction s rule: re_sub_tags.induct)
  case 1
  then show ?case by simp
next
  case (2 c cs)
  show ?case
  proof (cases "c = 60")
    case False
    with 2 show ?thesis by auto
  next
    case True
    show ?thesis
    proof (cases "match_tag_body cs")
      case None
      with True 2 show ?thesis by auto
    next
      case (Some rest)
      then obtain body where "cs = body @ 62 # rest"
        using match_tag_body_Some_iff by blast
      then have "set rest \<subseteq> set cs" by auto
      with True Some 2 show ?thesis by auto
    qed
  qed
qed

lemma re_sub_tags_hd:
  "cs \<noteq> [] \<Longrightarrow> hd cs = 62 \<Longrightarrow> re_sub_tags cs \<noteq> [] \<and> hd (re_sub_tags cs) = 62"
  by (cases cs) simp_all

lemma no_tag_after_re_sub: "\<not> has_tag (re_sub_tags s)"
proof (induction s rule: re_sub_tags.induct)
  case 1
  then show ?case by simp
next
  case (2 c cs)
  show ?case
  proof (cases "c = 60")
    case False
    with 2 show ?thesis by simp
  next
    case True
    show ?thesis
    proof (cases "match_tag_body cs")
      case (Some rest)
      with True 2 show ?thesis by simp
    next
      case None
      then have "cs = [] \<or> hd cs = 62 \<or> 62 \<notin> set cs"
        by (simp add: match_tag_body_None_iff)
      then have "re_sub_tags cs = [] \<or> hd (re_sub_tags cs) = 62 \<or> 62 \<notin> set (re_sub_tags cs)"
        using re_sub_tags_hd [of cs] set_re_sub_tags [of cs] by (cases "cs = []") auto
      then have "match_tag_body (re_sub_tags cs) = None"
        by (simp add: match_tag_body_None_iff)
      with True None 2 show ?thesis by simp
    qed
  qed
qed

lemma re_sub_tags_id: "\<not> has_tag t \<Longrightarrow> re_sub_tags t = t"
proof (induction t rule: re_sub_tags.induct)
  case 1
  then show ?case by simp
next
  case (2 c cs)
  from "2.prems" have nt: "\<not> (c = 60 \<and> match_tag_body cs \<noteq> None)" and ncs: "\<not> has_tag cs"
    by (simp_all split: if_splits)
  show ?case
  proof (cases "c = 60")
    case False
    with 2 ncs show ?thesis by simp
  next
    case True
    with nt have "match_tag_body cs = None" by simp
    with True 2 ncs show ?thesis by simp
  qed
qed

lemma str_replace_id: "old \<noteq> [] \<Longrightarrow> \<not> sublist old t \<Longrightarrow> str_replace old new t = t"
proof (induction t)
  case Nil
  then show ?case by (simp only: str_replace.simps if_False)
next
  case (Cons c cs)
  from Cons.prems(2) have np: "\<not> prefix old (c # cs)"
    by (meson prefix_imp_sublist)
  from Cons.prems(2) have "\<not> sublist old cs"
    by (meson sublist_Cons_right)
  with Cons.IH Cons.prems(1) have ih: "str_replace old new cs = cs" by blast
  have "str_replace old new (c # cs) = c # str_replace old new cs"
    using np Cons.prems(1) by (simp only: str_replace.simps if_False)
  with ih show ?case by (simp only:)
qed

lemma clean_html_tags_id:
  assumes "\<not> has_tag t" and "\<forall>e \<in> set entities. \<not> sublist e t"
  shows "clean_html_tags t = t"
proof -
  from assms(2) have e: "\<not> sublist (str ''&quot;'') t" "\<not> sublist (str ''&amp;'') t"
    "\<not> sublist (str ''&lt;'') t" "\<not> sublist (str ''&gt;'') t" "\<not> sublist (str ''&apos;'') t"
    by (simp_all add: entities_def)
  have ne: "str ''&quot;'' \<noteq> []" "str ''&amp;'' \<noteq> []" "str ''&lt;'' \<noteq> []"
    "str ''&gt;'' \<noteq> []" "str ''&apos;'' \<noteq> []"
    by (simp_all add: str_def)
  show ?thesis
    unfolding clean_html_tags_def Let_def
    by (simp only: re_sub_tags_id [OF assms(1)] str_replace_id [OF ne(1) e(1)]
        str_replace_id [OF ne(2) e(2)] str_replace_id [OF ne(3) e(3)]
        str_replace_id [OF ne(4) e(4)] str_replace_id [OF ne(5) e(5)])
qed

lemmas clean_eval = clean_html_tags_def match_tag_body_def str_def Let_def

lemma clean_example: "clean_html_tags example_raw = example_clean"
  by (simp add: clean_eval example_raw_def example_clean_def)

lemma clean_amp_quot: "clean_html_tags (str ''&amp;quot;'') = str ''&quot;''"
  by (simp add: clean_eval)

lemma clean_amp_amp: "clean_html_tags (str ''&amp;amp;'') = str ''&amp;''"
  by (simp add: clean_eval)

text \<open>
  The passes are chained, so text that the \<open>&amp;\<close> pass produces is seen by the three
  passes after it: \<open>&amp;lt;\<close> ends as the less-than sign.
\<close>

lemma clean_amp_lt: "clean_html_tags (str ''&amp;lt;'') = [60]"
  by (simp add: clean_eval)

text \<open>
  C4. Cleaning removes the tag spans first (no match of \<open><[^>]+>\<close> is left after that
  step) and then applies the five entity substitutions, one pass each, in the order
  \<open>&quot;\<close>, \<open>&amp;\<close>, \<open>&lt;\<close>, \<open>&gt;\<close>, \<open>&apos;\<close>. No pass is repeated: an entity
  decoded by an earlier pass is not decoded again when \<open>&amp;\<close> brings it back
  (\<open>&amp;quot;\<close> ends as \<open>&quot;\<close>, \<open>&amp;amp;\<close> as \<open>&amp;\<close>). The example of the
  specification cleans to the expected text.
\<close>

theorem clean_html_tags_passes:
  "clean_html_tags s =
     str_replace (str ''&apos;'') [39]
       (str_replace (str ''&gt;'') [62]
         (str_replace (str ''&lt;'') [60]
           (str_replace (str ''&amp;'') [38]
             (str_replace (str ''&quot;'') [34] (re_sub_tags s)))))
   \<and> (\<nexists>pre body post. re_sub_tags s = pre @ 60 # body @ 62 # post \<and> body \<noteq> [] \<and> 62 \<notin> set body)
   \<and> clean_html_tags example_raw = example_clean
   \<and> clean_html_tags (str ''&amp;quot;'') = str ''&quot;''
   \<and> clean_html_tags (str ''&amp;amp;'') = str ''&amp;''"
proof -
  have "\<nexists>pre body post. re_sub_tags s = pre @ 60 # body @ 62 # post \<and> body \<noteq> [] \<and> 62 \<notin> set body"
    using no_tag_after_re_sub [of s] has_tag_iff [of "re_sub_tags s"] by blast
  then show ?thesis
    using clean_example clean_amp_quot clean_amp_amp
    by (simp add: clean_html_tags_def Let_def)
qed

text \<open>
  C5, as stated: cleaning is idempotent. It is not: an encoded tag is decoded by the
  first cleaning and removed as a tag by the second.
\<close>

theorem clean_html_tags_not_idempotent:
  "clean_html_tags (clean_html_tags (str ''&lt;b&gt;'')) \<noteq> clean_html_tags (str ''&lt;b&gt;'')"
  by (simp add: clean_eval)

text \<open>
  C5, amended: cleaning is a function of its argument alone, and cleaning a cleaned
  string again returns it unchanged whenever the cleaned string holds no tag span and
  none of the five entities.
\<close>

theorem clean_html_tags_idempotent_plain:
  "\<not> has_tag (clean_html_tags s) \<Longrightarrow>
   \<forall>e \<in> set entities. \<not> sublist e (clean_html_tags s) \<Longrightarrow>
   clean_html_tags (clean_html_tags s) = clean_html_tags s"
  by (rule clean_html_tags_id)

theorem clean_html_tags_idempotent_plain_witness:
  "\<not> has_tag (clean_html_tags example_raw)
   \<and> \<not> (\<exists>e \<in> set entities. sublist e (clean_html_tags example_raw))
   \<and> clean_html_tags (clean_html_tags example_raw) = clean_html_tags example_raw"
proof -
  have c: "clean_html_tags example_raw = example_clean"
    by (simp add: clean_eval example_raw_def example_clean_def)
  have h1: "\<not> has_tag (clean_html_tags example_raw)"
    by (simp add: c example_clean_def match_tag_body_def)
  have h2: "\<forall>e \<in> set entities. \<not> sublist e (clean_html_tags example_raw)"
    by (simp add: c example_clean_def entities_def str_def sublist_code)
  from h1 h2 clean_html_tags_idempotent_plain [OF h1 h2] show ?thesis by blast
qed

section \<open>Properties of the report aggregation\<close>

lemma titles_dedup_from: "S \<union> title ` set (dedup_from S xs) = S \<union> title ` set xs"
proof (induction xs arbitrary: S)
  case Nil
  then show ?case by simp
next
  case (Cons a as)
  show ?case
  proof (cases "title a \<in> S")
    case True
    with Cons [of S] show ?thesis by auto
  next
    case False
    with Cons [of "insert (title a) S"] show ?thesis by auto
  qed
qed

lemma dedup_from_append:
  "dedup_from S (xs @ ys) = dedup_from S xs @ dedup_from (S \<union> title ` set xs) ys"
proof (induction xs arbitrary: S)
  case Nil
  then show ?case by simp
next
  case (Cons a as)
  show ?case
  proof (cases "title a \<in> S")
    case True
    then have "S \<union> title ` set (a # as) = S \<union> title ` set as" by auto
    with True Cons [of S] show ?thesis by simp
  next
    case False
    have "insert (title a) S \<union> title ` set as = S \<union> title ` set (a # as)" by auto
    with False Cons [of "insert (title a) S"] show ?thesis by simp
  qed
qed

lemma dedup_from_filter: "dedup_from S xs = dedup_titles (filter (\<lambda>a. title a \<notin> S) xs)"
proof (induction xs arbitrary: S)
  case Nil
  then show ?case by simp
next
  case (Cons a as)
  show ?case
  proof (cases "title a \<in> S")
    case True
    with Cons [of S] show ?thesis by simp
  next
    case False
    have "filter (\<lambda>b. title b \<noteq> title a) (filter (\<lambda>b. title b \<notin> S) as)
          = filter (\<lambda>b. title b \<notin> insert (title a) S) as"
      by (induction as) auto
    with False Cons [of "insert (title a) S"] show ?thesis by simp
  qed
qed

lemma dedup_from_empty: "dedup_from {} xs = dedup_titles xs"
  by (simp add: dedup_from_filter)

lemma add_items_make_article:
  "add_items q items (seen, acc) =
     (seen \<union> title ` set (dedup_from seen (filter (\<lambda>a. title a \<noteq> []) (map (make_article q) items))),
      acc @ dedup_from seen (filter (\<lambda>a. title a \<noteq> []) (map (make_article q) items)))"
proof (induction items arbitrary: seen acc)
  case Nil
  then show ?case by simp
next
  case (Cons item items)
  let ?a = "make_article q item"
  have t: "clean_html_tags (dict_get item (str ''title'') []) = title ?a"
    by (simp add: make_article_def)
  have a: "\<lparr>title = title ?a,
      description = clean_html_tags (dict_get item (str ''description'') []),
      originallink = dict_get item (str ''originallink'') [],
      link = dict_get item (str ''link'') [],
      pubDate = dict_get item (str ''pubDate'') [],
      search_query = q\<rparr> = ?a"
    by (simp add: make_article_def)
  show ?case
  proof (cases "title ?a \<noteq> [] \<and> title ?a \<notin> seen")
    case True
    then have "add_items q (item # items) (seen, acc)
        = add_items q items (insert (title ?a) seen, acc @ [?a])"
      by (simp add: t a Let_def)
    also have "\<dots> = (insert (title ?a) seen \<union> title ` set (dedup_from (insert (title ?a) seen)
          (filter (\<lambda>a. title a \<noteq> []) (map (make_article q) items))),
        (acc @ [?a]) @ dedup_from (insert (title ?a) seen)
          (filter (\<lambda>a. title a \<noteq> []) (map (make_article q) items)))"
      by (rule Cons.IH)
    finally show ?thesis using True by simp
  next
    case False
    then have "add_items q (item # items) (seen, acc) = add_items q items (seen, acc)"
      by (auto simp: t Let_def)
    with False Cons.IH [of seen acc] show ?thesis by auto
  qed
qed

lemma candidates_Cons:
  "candidates ((q, items) # got) = map (make_article q) items @ candidates got"
  by (simp add: candidates_def)

lemma report_loop_dedup_from:
  "report_loop env h n qs (seen, acc) w = (Inr (seen', acc'), w') \<Longrightarrow>
   acc' = acc @ dedup_from seen (filter (\<lambda>a. title a \<noteq> []) (candidates (fetched env h n qs w)))"
proof (induction qs arbitrary: seen acc w)
  case Nil
  then show ?case by (simp add: candidates_def)
next
  case (Cons q rest)
  let ?params = "\<lparr>query = q, display = min n 100, start = 1, sort_order = str ''date''\<rparr>"
  let ?w = "w\<lparr>events := events w @ [HttpGet h ?params]\<rparr>"
  show ?case
  proof (cases "fetch_items env (events w) h ?params")
    case (Inl e)
    with Cons.prems show ?thesis by (simp add: Let_def)
  next
    case (Inr items)
    let ?new = "filter (\<lambda>a. title a \<noteq> []) (map (make_article q) items)"
    let ?seen1 = "seen \<union> title ` set (dedup_from seen ?new)"
    let ?acc1 = "acc @ dedup_from seen ?new"
    from Inr Cons.prems have "report_loop env h n rest (?seen1, ?acc1) ?w = (Inr (seen', acc'), w')"
      by (simp add: Let_def add_items_make_article)
    then have "acc' = ?acc1 @ dedup_from ?seen1
        (filter (\<lambda>a. title a \<noteq> []) (candidates (fetched env h n rest ?w)))"
      by (rule Cons.IH)
    moreover have "fetched env h n (q # rest) w = (q, items) # fetched env h n rest ?w"
      using Inr by (simp add: Let_def)
    moreover have "?seen1 = seen \<union> title ` set ?new"
      by (rule titles_dedup_from)
    ultimately show ?thesis
      by (simp add: candidates_Cons dedup_from_append)
  qed
qed

lemma report_loop_first_seen:
  "report_loop env h n qs ({}, []) w = (Inr (seen', acc'), w') \<Longrightarrow>
   acc' = first_seen (fetched env h n qs w)"
  using report_loop_dedup_from [of env h n qs "{}" "[]" w seen' acc' w']
  by (simp add: dedup_from_empty first_seen_def)

lemma set_dedup_titles: "set (dedup_titles xs) \<subseteq> set xs"
  by (induction xs rule: dedup_titles.induct) auto

lemma distinct_dedup_titles: "distinct (map title (dedup_titles xs))"
proof (induction xs rule: dedup_titles.induct)
  case 1
  then show ?case by simp
next
  case (2 a as)
  have "title a \<notin> title ` set (dedup_titles (filter (\<lambda>b. title b \<noteq> title a) as))"
    using set_dedup_titles [of "filter (\<lambda>b. title b \<noteq> title a) as"] by auto
  with 2 show ?case by simp
qed

lemma titles_dedup_titles: "title ` set (dedup_titles xs) = title ` set xs"
  using titles_dedup_from [of "{}" xs] by (simp add: dedup_from_empty)

lemma find_filter_imp: "(\<And>x. P x \<Longrightarrow> Q x) \<Longrightarrow> find P (filter Q xs) = find P xs"
  by (induction xs) auto

lemma dedup_titles_first: "a \<in> set (dedup_titles xs) \<Longrightarrow> find (\<lambda>b. title b = title a) xs = Some a"
proof (induction xs rule: dedup_titles.induct)
  case 1
  then show ?case by simp
next
  case (2 a0 as)
  show ?case
  proof (cases "a = a0")
    case True
    then show ?thesis by simp
  next
    case False
    with "2.prems" have m: "a \<in> set (dedup_titles (filter (\<lambda>b. title b \<noteq> title a0) as))"
      by simp
    then have "a \<in> set (filter (\<lambda>b. title b \<noteq> title a0) as)"
      using set_dedup_titles by blast
    then have ne: "title a \<noteq> title a0" by simp
    from m have "find (\<lambda>b. title b = title a) (filter (\<lambda>b. title b \<noteq> title a0) as) = Some a"
      by (rule "2.IH")
    moreover have "find (\<lambda>b. title b = title a) (filter (\<lambda>b. title b \<noteq> title a0) as)
        = find (\<lambda>b. title b = title a) as"
      using ne by (intro find_filter_imp) simp
    ultimately show ?thesis using ne by simp
  qed
qed

lemma count_distinct_le: "distinct (map f ys) \<Longrightarrow> length (filter (\<lambda>a. f a = t) ys) \<le> 1"
proof (induction ys)
  case Nil
  then show ?case by simp
next
  case (Cons y ys)
  show ?case
  proof (cases "f y = t")
    case True
    with Cons.prems have "t \<notin> f ` set ys" by auto
    then have "filter (\<lambda>a. f a = t) ys = []" by (auto simp: filter_empty_conv)
    with True show ?thesis by simp
  next
    case False
    with Cons show ?thesis by simp
  qed
qed

lemma count_distinct_one:
  "distinct (map f ys) \<Longrightarrow> t \<in> f ` set ys \<Longrightarrow> length (filter (\<lambda>a. f a = t) ys) = 1"
proof -
  assume d: "distinct (map f ys)" and m: "t \<in> f ` set ys"
  from m have "filter (\<lambda>a. f a = t) ys \<noteq> []" by (auto simp: filter_empty_conv)
  then have "length (filter (\<lambda>a. f a = t) ys) \<noteq> 0" by simp
  with count_distinct_le [OF d, of t] show ?thesis by linarith
qed

lemma find_append: "find P (xs @ ys) = (case find P xs of None \<Rightarrow> find P ys | Some x \<Rightarrow> Some x)"
  by (induction xs) auto

lemma find_make_article_None:
  "\<not> produces t (q, items) \<Longrightarrow> find (\<lambda>b. title b = t) (map (make_article q) items) = None"
  by (induction items) (auto simp: produces_def make_article_def)

lemma find_make_article_Some:
  "produces t (q, items) \<Longrightarrow>
   \<exists>b. find (\<lambda>b. title b = t) (map (make_article q) items) = Some b \<and> search_query b = q"
  by (induction items) (auto simp: produces_def make_article_def)

lemma candidates_first_query:
  "find (\<lambda>b. title b = t) (candidates got) = Some a \<Longrightarrow>
   first_query_for t got = Some (search_query a)"
proof (induction got)
  case Nil
  then show ?case by (simp add: candidates_def)
next
  case (Cons qi got)
  obtain q items where qi: "qi = (q, items)" by (cases qi)
  show ?case
  proof (cases "produces t (q, items)")
    case True
    then obtain b where b: "find (\<lambda>b. title b = t) (map (make_article q) items) = Some b"
      and sq: "search_query b = q"
      using find_make_article_Some by blast
    with Cons.prems have "a = b" by (simp add: qi candidates_Cons find_append)
    with True sq show ?thesis by (simp add: qi first_query_for_def)
  next
    case False
    then have "find (\<lambda>b. title b = t) (map (make_article q) items) = None"
      by (rule find_make_article_None)
    with Cons.prems have "find (\<lambda>b. title b = t) (candidates got) = Some a"
      by (simp add: qi candidates_Cons find_append)
    then have "first_query_for t got = Some (search_query a)" by (rule Cons.IH)
    with False show ?thesis by (simp add: qi first_query_for_def)
  qed
qed

lemma first_seen_attribution:
  assumes "a \<in> set (first_seen got)"
  shows "title a \<noteq> [] \<and> first_query_for (title a) got = Some (search_query a)"
proof -
  let ?c = "filter (\<lambda>a. title a \<noteq> []) (candidates got)"
  from assms have m: "a \<in> set (dedup_titles ?c)" by (simp add: first_seen_def)
  then have "a \<in> set ?c" using set_dedup_titles by blast
  then have ne: "title a \<noteq> []" by simp
  from m have "find (\<lambda>b. title b = title a) ?c = Some a" by (rule dedup_titles_first)
  moreover have "find (\<lambda>b. title b = title a) ?c = find (\<lambda>b. title b = title a) (candidates got)"
    using ne by (intro find_filter_imp) simp
  ultimately have "find (\<lambda>b. title b = title a) (candidates got) = Some a" by simp
  then have "first_query_for (title a) got = Some (search_query a)"
    by (rule candidates_first_query)
  with ne show ?thesis by simp
qed

lemma produced_in_candidates:
  "first_query_for t got \<noteq> None \<Longrightarrow> t \<in> title ` set (candidates got)"
proof (induction got)
  case Nil
  then show ?case by (simp add: first_query_for_def)
next
  case (Cons qi got)
  obtain q items where qi: "qi = (q, items)" by (cases qi)
  show ?case
  proof (cases "produces t (q, items)")
    case True
    then obtain item where "item \<in> set items"
      and "t = clean_html_tags (dict_get item (str ''title'') [])"
      by (auto simp: produces_def)
    then have "make_article q item \<in> set (map (make_article q) items)"
      and "title (make_article q item) = t"
      by (simp_all add: make_article_def)
    then have "t \<in> title ` set (map (make_article q) items)" by blast
    then show ?thesis by (auto simp: qi candidates_Cons)
  next
    case False
    with Cons.prems have "first_query_for t got \<noteq> None" by (simp add: qi first_query_for_def)
    then have "t \<in> title ` set (candidates got)" by (rule Cons.IH)
    then show ?thesis by (auto simp: qi candidates_Cons)
  qed
qed

lemma first_seen_once:
  assumes "t \<noteq> []" and "first_query_for t got \<noteq> None"
  shows "length (filter (\<lambda>a. title a = t) (first_seen got)) = 1"
proof -
  from assms(2) have "t \<in> title ` set (candidates got)" by (rule produced_in_candidates)
  with assms(1) have "t \<in> title ` set (filter (\<lambda>a. title a \<noteq> []) (candidates got))" by auto
  then have "t \<in> title ` set (first_seen got)"
    by (simp add: first_seen_def titles_dedup_titles)
  moreover have "distinct (map title (first_seen got))"
    by (simp add: first_seen_def distinct_dedup_titles)
  ultimately show ?thesis by (rule count_distinct_one [rotated])
qed

lemmas demo_eval =
  aggregation_result_def report_fetched_def demo_env_def truthy_def str_def
  articles_per_query_def clamp_num_articles_def search_queries_def dflt_def naver_headers_def
  ensure_session_def world0_def fetch_items_def demo_titles_def demo_item_def dict_get_def
  make_article_def clean_html_tags_def match_tag_body_def Let_def

lemma aggregation_result_SomeD:
  assumes "aggregation_result env topic keywords num_articles w = Some arts"
  shows "arts = take (nat (clamp_num_articles num_articles))
           (first_seen (report_fetched env topic keywords num_articles w))"
proof -
  let ?loop = "report_loop env (naver_headers env) (articles_per_query topic keywords num_articles)
      (search_queries topic keywords) ({}, []) (ensure_session w)"
  obtain r w' where loop: "?loop = (r, w')" by (cases ?loop)
  show ?thesis
  proof (cases r)
    case (Inl e)
    with assms loop show ?thesis
      by (simp add: aggregation_result_def split: if_splits)
  next
    case (Inr p)
    obtain seen acc where p: "p = (seen, acc)" by (cases p)
    from loop Inr p have "acc = first_seen (report_fetched env topic keywords num_articles w)"
      unfolding report_fetched_def by (intro report_loop_first_seen) simp
    moreover from assms loop Inr p have "arts = take (nat (clamp_num_articles num_articles)) acc"
      by (simp add: aggregation_result_def split: if_splits)
    ultimately show ?thesis by simp
  qed
qed

text \<open>
  C9. In the report aggregation every fetched item whose cleaned title is empty is
  discarded: every article of the aggregation result has a non-empty cleaned title,
  whatever the upstream responses held.
\<close>

theorem aggregation_titles_nonempty:
  "aggregation_result env topic keywords num_articles w = Some arts \<Longrightarrow>
   \<forall>a \<in> set arts. title a \<noteq> []"
proof
  fix a
  assume agg: "aggregation_result env topic keywords num_articles w = Some arts"
    and a: "a \<in> set arts"
  from agg have "arts = take (nat (clamp_num_articles num_articles))
      (first_seen (report_fetched env topic keywords num_articles w))"
    by (rule aggregation_result_SomeD)
  with a have "a \<in> set (first_seen (report_fetched env topic keywords num_articles w))"
    using in_set_takeD by fastforce
  then show "title a \<noteq> []"
    using first_seen_attribution by blast
qed

theorem aggregation_titles_nonempty_witness:
  "aggregation_result demo_env (str ''k2'') None None world0
     = Some [make_article (str ''k2'') (demo_item [88]), make_article (str ''k2'') (demo_item [102])]
   \<and> [] \<in> set (demo_titles (str ''k2''))
   \<and> \<not> (\<exists>a \<in> set [make_article (str ''k2'') (demo_item [88]),
                      make_article (str ''k2'') (demo_item [102])]. title a = [])"
proof -
  have agg: "aggregation_result demo_env (str ''k2'') None None world0
     = Some [make_article (str ''k2'') (demo_item [88]), make_article (str ''k2'') (demo_item [102])]"
    by (simp add: demo_eval)
  have "[] \<in> set (demo_titles (str ''k2''))"
    by (simp add: demo_titles_def str_def)
  with agg aggregation_titles_nonempty [OF agg] show ?thesis by blast
qed

text \<open>
  C3. With credentials set, either an exception leaves the query loop (and there is no
  aggregation result), or the aggregation result is exactly the first \<open>targetCount\<close>
  articles of the deduplicated accumulation in first-seen order, where \<open>targetCount\<close>
  is \<open>num_articles\<close> clamped into 5..50; its length is the smaller of \<open>targetCount\<close>
  and the number of accumulated articles, and it is what the report is built from.
\<close>

theorem aggregation_result_truncates:
  assumes "truthy (client_id env)" and "truthy (client_secret env)"
  shows "(\<exists>e. fst (generate_news_report env topic keywords num_articles include_links w) = Inl e
            \<and> aggregation_result env topic keywords num_articles w = None)
       \<or> (\<exists>arts. aggregation_result env topic keywords num_articles w = Some arts
            \<and> arts = take (nat (clamp_num_articles num_articles))
                       (first_seen (report_fetched env topic keywords num_articles w))
            \<and> length arts = min (nat (clamp_num_articles num_articles))
                       (length (first_seen (report_fetched env topic keywords num_articles w)))
            \<and> fst (generate_news_report env topic keywords num_articles include_links w)
                = Inr [text_content
                    (if arts = [] then msg_no_articles topic
                     else build_report env topic (search_queries topic keywords) arts
                            (dflt True include_links))])"
proof -
  let ?loop = "report_loop env (naver_headers env) (articles_per_query topic keywords num_articles)
      (search_queries topic keywords) ({}, []) (ensure_session w)"
  let ?n = "nat (clamp_num_articles num_articles)"
  obtain r w' where loop: "?loop = (r, w')" by (cases ?loop)
  show ?thesis
  proof (cases r)
    case (Inl e)
    with assms loop have "fst (generate_news_report env topic keywords num_articles include_links w) = Inl e"
      and "aggregation_result env topic keywords num_articles w = None"
      by (simp_all add: generate_news_report_def aggregation_result_def Let_def)
    then show ?thesis by blast
  next
    case (Inr p)
    obtain seen acc where p: "p = (seen, acc)" by (cases p)
    from assms loop Inr p
    have agg: "aggregation_result env topic keywords num_articles w = Some (take ?n acc)"
      by (simp add: aggregation_result_def)
    then have eq: "take ?n acc = take ?n (first_seen (report_fetched env topic keywords num_articles w))"
      by (rule aggregation_result_SomeD)
    have five: "5 \<le> clamp_num_articles num_articles"
      by (simp add: clamp_num_articles_def)
    then have npos: "\<not> clamp_num_articles num_articles \<le> 0" by simp
    from five have pos: "0 < ?n" by simp
    then have empty: "take ?n acc = [] \<longleftrightarrow> acc = []"
      by (cases acc) (simp_all add: take_Cons')
    from assms loop Inr p
    have "fst (generate_news_report env topic keywords num_articles include_links w)
        = Inr [text_content
            (if take ?n acc = [] then msg_no_articles topic
             else build_report env topic (search_queries topic keywords) (take ?n acc)
                    (dflt True include_links))]"
      by (simp add: generate_news_report_def Let_def empty npos)
    then have gen: "fst (generate_news_report env topic keywords num_articles include_links w)
        = Inr [text_content
            (if take ?n (first_seen (report_fetched env topic keywords num_articles w)) = []
             then msg_no_articles topic
             else build_report env topic (search_queries topic keywords)
                    (take ?n (first_seen (report_fetched env topic keywords num_articles w)))
                    (dflt True include_links))]"
      by (simp only: eq)
    have len: "length (take ?n (first_seen (report_fetched env topic keywords num_articles w)))
        = min ?n (length (first_seen (report_fetched env topic keywords num_articles w)))"
      by (simp add: min.commute)
    from agg have agg': "aggregation_result env topic keywords num_articles w
        = Some (take ?n (first_seen (report_fetched env topic keywords num_articles w)))"
      by (simp only: eq)
    from agg' len gen show ?thesis by blast
  qed
qed

theorem aggregation_result_truncates_witness:
  "truthy (client_id demo_env) \<and> truthy (client_secret demo_env)
   \<and> clamp_num_articles (Some 10) = 10
   \<and> length (first_seen (report_fetched demo_env (str ''many'') None (Some 10) world0)) = 25
   \<and> distinct (demo_titles (str ''many''))
   \<and> map title (first_seen (report_fetched demo_env (str ''many'') None (Some 10) world0))
       = demo_titles (str ''many'')
   \<and> aggregation_result demo_env (str ''many'') None (Some 10) world0
       = Some (take 10 (first_seen (report_fetched demo_env (str ''many'') None (Some 10) world0)))
   \<and> length (take 10 (first_seen (report_fetched demo_env (str ''many'') None (Some 10) world0))) = 10"
proof -
  have h1: "truthy (client_id demo_env)" and h2: "truthy (client_secret demo_env)"
    by (simp_all add: demo_env_def truthy_def str_def)
  have c: "clamp_num_articles (Some 10) = 10"
    by (simp add: clamp_num_articles_def dflt_def)
  have l: "length (first_seen (report_fetched demo_env (str ''many'') None (Some 10) world0)) = 25"
    by (simp add: demo_eval first_seen_def candidates_def)
  have d: "distinct (demo_titles (str ''many''))"
    by (simp add: demo_titles_def str_def)
  have m: "map title (first_seen (report_fetched demo_env (str ''many'') None (Some 10) world0))
       = demo_titles (str ''many'')"
    by (simp add: demo_eval first_seen_def candidates_def)
  have ne: "aggregation_result demo_env (str ''many'') None (Some 10) world0 \<noteq> None"
    by (simp add: demo_eval)
  from aggregation_result_truncates [OF h1 h2, of "str ''many''" None "Some 10" None world0] ne
  have "aggregation_result demo_env (str ''many'') None (Some 10) world0
       = Some (take 10 (first_seen (report_fetched demo_env (str ''many'') None (Some 10) world0)))"
    by (auto simp: c)
  with h1 h2 c l d m show ?thesis by simp
qed

text \<open>
  C2, amended. Cleaned titles are unique within an aggregation result, and every
  article in it is attributed to the first query, in query-list order, whose response
  held an item with that cleaned title. A title occurs at most once; a non-empty title
  that some query returned occurs exactly once when the deduplicated accumulation is
  not longer than \<open>targetCount\<close> (nothing is cut off).
\<close>

theorem aggregation_titles_unique:
  assumes "aggregation_result env topic keywords num_articles w = Some arts"
  shows "distinct (map title arts)
     \<and> (\<forall>a \<in> set arts.
          first_query_for (title a) (report_fetched env topic keywords num_articles w)
            = Some (search_query a))
     \<and> (\<forall>t. length (filter (\<lambda>a. title a = t) arts) \<le> 1)
     \<and> (\<forall>t. t \<noteq> []
            \<and> first_query_for t (report_fetched env topic keywords num_articles w) \<noteq> None
            \<and> length (first_seen (report_fetched env topic keywords num_articles w))
                \<le> nat (clamp_num_articles num_articles)
          \<longrightarrow> length (filter (\<lambda>a. title a = t) arts) = 1)"
proof -
  let ?got = "report_fetched env topic keywords num_articles w"
  let ?n = "nat (clamp_num_articles num_articles)"
  from assms have arts: "arts = take ?n (first_seen ?got)"
    by (rule aggregation_result_SomeD)
  have "distinct (map title (first_seen ?got))"
    by (simp add: first_seen_def distinct_dedup_titles)
  then have d: "distinct (map title arts)"
    by (simp add: arts take_map [symmetric])
  have a: "\<forall>a \<in> set arts. first_query_for (title a) ?got = Some (search_query a)"
  proof
    fix a assume "a \<in> set arts"
    then have "a \<in> set (first_seen ?got)"
      unfolding arts by (rule in_set_takeD)
    then show "first_query_for (title a) ?got = Some (search_query a)"
      using first_seen_attribution by blast
  qed
  have le: "\<forall>t. length (filter (\<lambda>a. title a = t) arts) \<le> 1"
    using count_distinct_le [OF d] by blast
  have one: "\<forall>t. t \<noteq> [] \<and> first_query_for t ?got \<noteq> None \<and> length (first_seen ?got) \<le> ?n
          \<longrightarrow> length (filter (\<lambda>a. title a = t) arts) = 1"
    by (auto simp: arts first_seen_once)
  from d a le one show ?thesis by blast
qed

theorem aggregation_titles_unique_witness:
  "aggregation_result demo_env (str ''topic'') (Some [str ''k1'', str ''k2'']) None world0
     = Some [make_article (str ''topic'') (demo_item [97]), make_article (str ''topic'') (demo_item [98]),
        make_article (str ''topic'') (demo_item [99]), make_article (str ''topic'') (demo_item [100]),
        make_article (str ''topic'') (demo_item [101]), make_article (str ''k1'') (demo_item [88]),
        make_article (str ''k2'') (demo_item [102])]
   \<and> first_query_for [88]
        (report_fetched demo_env (str ''topic'') (Some [str ''k1'', str ''k2'']) None world0)
       = Some (str ''k1'')
   \<and> length (filter (\<lambda>a. title a = [88])
        [make_article (str ''topic'') (demo_item [97]), make_article (str ''topic'') (demo_item [98]),
        make_article (str ''topic'') (demo_item [99]), make_article (str ''topic'') (demo_item [100]),
        make_article (str ''topic'') (demo_item [101]), make_article (str ''k1'') (demo_item [88]),
        make_article (str ''k2'') (demo_item [102])]) = 1"
proof -
  let ?arts = "[make_article (str ''topic'') (demo_item [97]), make_article (str ''topic'') (demo_item [98]),
        make_article (str ''topic'') (demo_item [99]), make_article (str ''topic'') (demo_item [100]),
        make_article (str ''topic'') (demo_item [101]), make_article (str ''k1'') (demo_item [88]),
        make_article (str ''k2'') (demo_item [102])]"
  let ?got = "report_fetched demo_env (str ''topic'') (Some [str ''k1'', str ''k2'']) None world0"
  have agg: "aggregation_result demo_env (str ''topic'') (Some [str ''k1'', str ''k2'']) None world0
     = Some ?arts"
    by (simp add: demo_eval)
  note u = aggregation_titles_unique [OF agg]
  have m: "make_article (str ''k1'') (demo_item [88]) \<in> set ?arts" by simp
  have t: "title (make_article (str ''k1'') (demo_item [88])) = [88]"
    and q: "search_query (make_article (str ''k1'') (demo_item [88])) = str ''k1''"
    by (simp_all add: demo_eval)
  from u m have "first_query_for (title (make_article (str ''k1'') (demo_item [88]))) ?got
      = Some (search_query (make_article (str ''k1'') (demo_item [88])))"
    by blast
  then have fq: "first_query_for [88] ?got = Some (str ''k1'')"
    by (simp only: t q)
  have len: "length (first_seen ?got) \<le> nat (clamp_num_articles None)"
    by (simp add: demo_eval first_seen_def candidates_def)
  have "[88] \<noteq> ([]::pystr) \<and> first_query_for [88] ?got \<noteq> None
      \<and> length (first_seen ?got) \<le> nat (clamp_num_articles None)"
    using fq len by simp
  with u have "length (filter (\<lambda>a. title a = [88]) ?arts) = 1" by blast
  with agg fq show ?thesis by blast
qed

text \<open>
  C2, as stated: whenever two queries both return an item with the same cleaned title,
  exactly one item with that title is in the final sequence. It fails where the
  truncation cuts the title off: with a target of five, \<open>topic\<close> yields five titles, and
  the title \<open>X\<close> that both \<open>k1\<close> and \<open>k2\<close> return is not in the result at all.
\<close>

theorem aggregation_duplicate_cut_off:
  "report_fetched demo_env (str ''topic'') (Some [str ''k1'', str ''k2'']) (Some 5) world0
     = [(str ''topic'', map demo_item (demo_titles (str ''topic''))),
        (str ''k1'', map demo_item (demo_titles (str ''k1''))),
        (str ''k2'', map demo_item (demo_titles (str ''k2'')))]
   \<and> produces [88] (str ''k1'', map demo_item (demo_titles (str ''k1'')))
   \<and> produces [88] (str ''k2'', map demo_item (demo_titles (str ''k2'')))
   \<and> aggregation_result demo_env (str ''topic'') (Some [str ''k1'', str ''k2'']) (Some 5) world0
     = Some [make_article (str ''topic'') (demo_item [97]), make_article (str ''topic'') (demo_item [98]),
        make_article (str ''topic'') (demo_item [99]), make_article (str ''topic'') (demo_item [100]),
        make_article (str ''topic'') (demo_item [101])]
   \<and> [88] \<notin> set (map title
       [make_article (str ''topic'') (demo_item [97]), make_article (str ''topic'') (demo_item [98]),
        make_article (str ''topic'') (demo_item [99]), make_article (str ''topic'') (demo_item [100]),
        make_article (str ''topic'') (demo_item [101])])"
  by (simp add: demo_eval produces_def)

lemma ensure_session_events: "events (ensure_session w) = events w"
  by (simp add: ensure_session_def)

lemma search_news_events:
  assumes "truthy (client_id env)" and "truthy (client_secret env)"
  shows "events (snd (search_news env q d s so w)) = events w @
     [HttpGet (naver_headers env)
        \<lparr>query = q, display = max 1 (min (dflt 10 d) 100), start = max 1 (min (dflt 1 s) 1000),
         sort_order = (if so = Some (str ''date'') then str ''date'' else str ''sim'')\<rparr>]"
proof -
  have so: "(if dflt (str ''sim'') so \<notin> set [str ''sim'', str ''date''] then str ''sim''
             else dflt (str ''sim'') so)
          = (if so = Some (str ''date'') then str ''date'' else str ''sim'')"
    by (cases so) (auto simp: dflt_def)
  show ?thesis
    using assms unfolding search_news_def Let_def so
    by (simp add: ensure_session_events)
qed

text \<open>
  C6. With credentials set, \<open>_search_news\<close> makes exactly one request; its \<open>display\<close> is
  the argument clamped into 1..100, its \<open>start\<close> the argument clamped into 1..1000, and
  its sort order is \<open>date\<close> when that was asked for and the default \<open>sim\<close> (relevance) for
  every other value.
\<close>

theorem search_news_clamps:
  assumes "truthy (client_id env)" and "truthy (client_secret env)"
  shows "\<exists>p. events (snd (search_news env q d s so w)) = events w @ [HttpGet (naver_headers env) p]
     \<and> query p = q
     \<and> display p = max 1 (min (dflt 10 d) 100) \<and> 1 \<le> display p \<and> display p \<le> 100
     \<and> start p = max 1 (min (dflt 1 s) 1000) \<and> 1 \<le> start p \<and> start p \<le> 1000
     \<and> sort_order p = (if so = Some (str ''date'') then str ''date'' else str ''sim'')"
  using search_news_events [OF assms, of q d s so w] by simp

theorem search_news_clamps_witness:
  "truthy (client_id demo_env) \<and> truthy (client_secret demo_env)
   \<and> events (snd (search_news demo_env (str ''k1'') (Some 500) (Some (- 3)) (Some (str ''newest'')) world0))
     = [HttpGet (naver_headers demo_env)
          \<lparr>query = str ''k1'', display = 100, start = 1, sort_order = str ''sim''\<rparr>]"
proof -
  have h1: "truthy (client_id demo_env)" and h2: "truthy (client_secret demo_env)"
    by (simp_all add: demo_env_def truthy_def str_def)
  from search_news_clamps [OF h1 h2, of "str ''k1''" "Some 500" "Some (- 3)" "Some (str ''newest'')" world0]
  obtain p where e: "events (snd (search_news demo_env (str ''k1'') (Some 500) (Some (- 3))
        (Some (str ''newest'')) world0)) = events world0 @ [HttpGet (naver_headers demo_env) p]"
    and p: "query p = str ''k1''" "display p = max 1 (min (dflt 10 (Some 500)) 100)"
      "start p = max 1 (min (dflt 1 (Some (- 3))) 1000)"
      "sort_order p = (if Some (str ''newest'') = Some (str ''date'') then str ''date'' else str ''sim'')"
    by blast
  from p have "p = \<lparr>query = str ''k1'', display = 100, start = 1, sort_order = str ''sim''\<rparr>"
    by (cases p) (simp add: dflt_def str_def)
  with e h1 h2 show ?thesis by (simp add: world0_def)
qed

section \<open>Properties of the handlers\<close>



















text \<open>
  C8. Without search credentials, \<open>_search_news\<close>, \<open>_generate_news_report\<close> and
  \<open>_search_and_summarize_news\<close> return the single text item that says so, and the trace of
  outbound calls is unchanged; with search credentials but without the LLM key,
  \<open>_search_and_summarize_news\<close> returns the single text item about the LLM key, again with
  no outbound call. Opening the client session is the only effect before the check, and it
  is no outbound call.
\<close>

theorem missing_credentials_no_call:
  "(\<not> truthy (client_id env) \<or> \<not> truthy (client_secret env) \<longrightarrow>
      search_news env q d s so w = (Inr [text_content msg_no_naver_credentials], ensure_session w)
    \<and> generate_news_report env topic kws n il w
        = (Inr [text_content msg_no_naver_credentials], ensure_session w)
    \<and> search_and_summarize_news env ks m c w
        = (Inr [text_content msg_no_naver_credentials], ensure_session w))
   \<and> (truthy (client_id env) \<and> truthy (client_secret env) \<and> \<not> truthy (claude_api_key env) \<longrightarrow>
      search_and_summarize_news env ks m c w
        = (Inr [text_content msg_no_claude_key], ensure_session w))
   \<and> events (ensure_session w) = events w"
  by (simp add: search_news_def generate_news_report_def search_and_summarize_news_def
      claude_client_def ensure_session_events Let_def)

theorem missing_credentials_no_call_witness:
  "\<not> truthy (client_id (demo_env\<lparr>client_id := None\<rparr>))
   \<and> search_news (demo_env\<lparr>client_id := None\<rparr>) (str ''k1'') None None None world0
       = (Inr [text_content msg_no_naver_credentials], ensure_session world0)
   \<and> generate_news_report (demo_env\<lparr>client_id := None\<rparr>) (str ''topic'') None None None world0
       = (Inr [text_content msg_no_naver_credentials], ensure_session world0)
   \<and> search_and_summarize_news (demo_env\<lparr>client_id := None\<rparr>) [str ''k1''] None None world0
       = (Inr [text_content msg_no_naver_credentials], ensure_session world0)
   \<and> truthy (client_id (demo_env\<lparr>claude_api_key := Some []\<rparr>))
   \<and> truthy (client_secret (demo_env\<lparr>claude_api_key := Some []\<rparr>))
   \<and> \<not> truthy (claude_api_key (demo_env\<lparr>claude_api_key := Some []\<rparr>))
   \<and> search_and_summarize_news (demo_env\<lparr>claude_api_key := Some []\<rparr>) [str ''k1''] None None world0
       = (Inr [text_content msg_no_claude_key], ensure_session world0)
   \<and> events (ensure_session world0) = []"
proof -
  have a: "\<not> truthy (client_id (demo_env\<lparr>client_id := None\<rparr>))"
    by (simp add: truthy_def)
  have b: "truthy (client_id (demo_env\<lparr>claude_api_key := Some []\<rparr>))"
    "truthy (client_secret (demo_env\<lparr>claude_api_key := Some []\<rparr>))"
    "\<not> truthy (claude_api_key (demo_env\<lparr>claude_api_key := Some []\<rparr>))"
    by (simp_all add: truthy_def demo_env_def str_def)
  have e: "events world0 = []" by (simp add: world0_def)
  from a b e
    missing_credentials_no_call [of "demo_env\<lparr>client_id := None\<rparr>" "str ''k1''" None None None
      world0 "str ''topic''" None None None "[str ''k1'']" None None]
    missing_credentials_no_call [of "demo_env\<lparr>claude_api_key := Some []\<rparr>" "str ''k1''" None None None
      world0 "str ''topic''" None None None "[str ''k1'']" None None]
  show ?thesis by simp
qed


lemma NEWS_CATEGORIES_keywords:
  "map_of NEWS_CATEGORIES c = Some ci \<Longrightarrow> cat_keywords ci \<noteq> []"
proof -
  assume "map_of NEWS_CATEGORIES c = Some ci"
  then have "(c, ci) \<in> set NEWS_CATEGORIES" by (rule map_of_SomeD)
  then have "ci \<in> snd ` set NEWS_CATEGORIES" by force
  then show ?thesis unfolding NEWS_CATEGORIES_def by auto
qed

lemma tech_category:
  "\<exists>ci. map_of NEWS_CATEGORIES (str ''tech'') = Some ci \<and> cat_keywords ci
     = [str ''IT'', [44284, 54617], [44592, 49696], str ''AI'', [49828, 47560, 53944, 54256]]"
  by (simp add: NEWS_CATEGORIES_def str_def)

text \<open>
  C7. For a category id that is not in the registry \<open>_get_category_news\<close> returns the
  unknown-category text (with the list of the ids) and makes no search. For a known id
  the registry has a first keyword, and the call is \<open>_search_news\<close> on that keyword with
  the given count, start 1 and the sort order defaulting to \<open>date\<close>. For \<open>tech\<close> the
  query is \<open>IT\<close>, and with credentials set that is the one request made.
\<close>

theorem get_category_news_spec:
  "(category \<notin> fst ` set NEWS_CATEGORIES \<longrightarrow>
      get_category_news env category d so w
        = (Inr [text_content (msg_unknown_category category
                  (join (str '', '') (map fst NEWS_CATEGORIES)))], w))
   \<and> (\<forall>ci. map_of NEWS_CATEGORIES category = Some ci \<longrightarrow>
        cat_keywords ci \<noteq> []
        \<and> get_category_news env category d so w
            = search_news env (hd (cat_keywords ci)) (Some (dflt 10 d)) None
                (Some (dflt (str ''date'') so)) w)
   \<and> get_category_news env (str ''tech'') d None w
        = search_news env (str ''IT'') (Some (dflt 10 d)) None (Some (str ''date'')) w
   \<and> (truthy (client_id env) \<and> truthy (client_secret env) \<longrightarrow>
        events (snd (get_category_news env (str ''tech'') d None w)) = events w @
          [HttpGet (naver_headers env)
             \<lparr>query = str ''IT'', display = max 1 (min (dflt 10 d) 100), start = 1,
              sort_order = str ''date''\<rparr>])"
proof -
  have unknown: "category \<notin> fst ` set NEWS_CATEGORIES \<longrightarrow>
      get_category_news env category d so w
        = (Inr [text_content (msg_unknown_category category
                  (join (str '', '') (map fst NEWS_CATEGORIES)))], w)"
    by (simp add: get_category_news_def map_of_eq_None_iff [symmetric] Let_def)
  have known: "\<forall>ci. map_of NEWS_CATEGORIES category = Some ci \<longrightarrow>
        cat_keywords ci \<noteq> []
        \<and> get_category_news env category d so w
            = search_news env (hd (cat_keywords ci)) (Some (dflt 10 d)) None
                (Some (dflt (str ''date'') so)) w"
  proof (intro allI impI)
    fix ci assume ci: "map_of NEWS_CATEGORIES category = Some ci"
    then have ne: "cat_keywords ci \<noteq> []" by (rule NEWS_CATEGORIES_keywords)
    then obtain k ks where "cat_keywords ci = k # ks" by (cases "cat_keywords ci") auto
    with ci ne show "cat_keywords ci \<noteq> []
        \<and> get_category_news env category d so w
            = search_news env (hd (cat_keywords ci)) (Some (dflt 10 d)) None
                (Some (dflt (str ''date'') so)) w"
      by (simp add: get_category_news_def)
  qed
  obtain ci where t: "map_of NEWS_CATEGORIES (str ''tech'') = Some ci"
    and k: "cat_keywords ci
     = [str ''IT'', [44284, 54617], [44592, 49696], str ''AI'', [49828, 47560, 53944, 54256]]"
    using tech_category by blast
  have tech: "get_category_news env (str ''tech'') d None w
        = search_news env (str ''IT'') (Some (dflt 10 d)) None (Some (str ''date'')) w"
    by (simp add: get_category_news_def t k dflt_def)
  have ev: "truthy (client_id env) \<and> truthy (client_secret env) \<longrightarrow>
        events (snd (get_category_news env (str ''tech'') d None w)) = events w @
          [HttpGet (naver_headers env)
             \<lparr>query = str ''IT'', display = max 1 (min (dflt 10 d) 100), start = 1,
              sort_order = str ''date''\<rparr>]"
  proof
    assume c: "truthy (client_id env) \<and> truthy (client_secret env)"
    then have "events (snd (search_news env (str ''IT'') (Some (dflt 10 d)) None (Some (str ''date'')) w))
       = events w @ [HttpGet (naver_headers env)
        \<lparr>query = str ''IT'', display = max 1 (min (dflt 10 (Some (dflt 10 d))) 100),
         start = max 1 (min (dflt 1 None) 1000),
         sort_order = (if Some (str ''date'') = Some (str ''date'') then str ''date'' else str ''sim'')\<rparr>]"
      by (intro search_news_events) simp_all
    then show "events (snd (get_category_news env (str ''tech'') d None w)) = events w @
          [HttpGet (naver_headers env)
             \<lparr>query = str ''IT'', display = max 1 (min (dflt 10 d) 100), start = 1,
              sort_order = str ''date''\<rparr>]"
      by (simp add: tech dflt_def)
  qed
  from unknown known tech ev show ?thesis by blast
qed

theorem get_category_news_spec_witness:
  "str ''weather'' \<notin> fst ` set NEWS_CATEGORIES
   \<and> get_category_news demo_env (str ''weather'') None None world0
        = (Inr [text_content (msg_unknown_category (str ''weather'')
                  (join (str '', '') (map fst NEWS_CATEGORIES)))], world0)
   \<and> truthy (client_id demo_env) \<and> truthy (client_secret demo_env)
   \<and> events (snd (get_category_news demo_env (str ''tech'') None None world0))
        = [HttpGet (naver_headers demo_env)
             \<lparr>query = str ''IT'', display = 10, start = 1, sort_order = str ''date''\<rparr>]"
proof -
  have u: "str ''weather'' \<notin> fst ` set NEWS_CATEGORIES"
    by (simp add: NEWS_CATEGORIES_def str_def)
  have h: "truthy (client_id demo_env) \<and> truthy (client_secret demo_env)"
    by (simp add: demo_env_def truthy_def str_def)
  from u h get_category_news_spec [of "str ''weather''" demo_env None None world0]
    get_category_news_spec [of "str ''tech''" demo_env None None world0]
  show ?thesis by (simp add: dflt_def world0_def)
qed

lemma add_news_keywords:
  "keyword ` set (add_news kw idx items acc) \<subseteq> insert kw (keyword ` set acc)"
proof (induction items arbitrary: idx acc)
  case Nil
  then show ?case by auto
next
  case (Cons item items)
  let ?d = "\<lparr>news_id = kw @ [95] @ str_of_int idx,
            keyword = kw,
            news_title = clean_html_tags (dict_get item (str ''title'') []),
            news_body = clean_html_tags (dict_get item (str ''description'') []),
            news_link = (if dict_get item (str ''originallink'') [] \<noteq> []
                         then dict_get item (str ''originallink'') []
                         else dict_get item (str ''link'') []),
            news_pubDate = dict_get item (str ''pubDate'') []\<rparr>"
  have "keyword ` set (add_news kw (idx + 1) items (acc @ [?d]))
      \<subseteq> insert kw (keyword ` set (acc @ [?d]))"
    by (rule Cons.IH)
  moreover have "insert kw (keyword ` set (acc @ [?d])) = insert kw (keyword ` set acc)"
    by simp
  ultimately show ?case by simp
qed

lemma summarize_loop_trace:
  "summarize_loop env h n ks acc w = (r, w') \<Longrightarrow>
   \<exists>k. k \<le> length ks \<and> events w' = events w @ map (keyword_request h n) (take k ks)
     \<and> (\<forall>x. r = Inr x \<longrightarrow> keyword ` set x \<subseteq> keyword ` set acc \<union> set ks)"
proof (induction ks arbitrary: acc w)
  case Nil
  then show ?case by auto
next
  case (Cons q rest)
  let ?params = "\<lparr>query = q, display = n, start = 1, sort_order = str ''date''\<rparr>"
  let ?w = "w\<lparr>events := events w @ [HttpGet h ?params]\<rparr>"
  show ?case
  proof (cases "fetch_items env (events w) h ?params")
    case (Inl e)
    with Cons.prems have "r = Inl e" and "w' = ?w" by (simp_all add: Let_def)
    then have "Suc 0 \<le> length (q # rest)
        \<and> events w' = events w @ map (keyword_request h n) (take (Suc 0) (q # rest))
        \<and> (\<forall>x. r = Inr x \<longrightarrow> keyword ` set x \<subseteq> keyword ` set acc \<union> set (q # rest))"
      by (simp add: keyword_request_def)
    then show ?thesis by blast
  next
    case (Inr items)
    with Cons.prems have "summarize_loop env h n rest (add_news q 1 items acc) ?w = (r, w')"
      by (simp add: Let_def)
    then obtain k where k: "k \<le> length rest"
      and ev: "events w' = events ?w @ map (keyword_request h n) (take k rest)"
      and kw: "\<forall>x. r = Inr x \<longrightarrow> keyword ` set x \<subseteq> keyword ` set (add_news q 1 items acc) \<union> set rest"
      using Cons.IH by blast
    have sub: "keyword ` set (add_news q 1 items acc) \<subseteq> insert q (keyword ` set acc)"
      by (rule add_news_keywords)
    have e: "events w' = events w @ map (keyword_request h n) (take (Suc k) (q # rest))"
      using ev by (simp add: keyword_request_def)
    have s: "\<forall>x. r = Inr x \<longrightarrow> keyword ` set x \<subseteq> keyword ` set acc \<union> set (q # rest)"
    proof (intro allI impI)
      fix x assume "r = Inr x"
      with kw have "keyword ` set x \<subseteq> keyword ` set (add_news q 1 items acc) \<union> set rest"
        by blast
      with sub have "keyword ` set x \<subseteq> insert q (keyword ` set acc) \<union> set rest"
        by blast
      then show "keyword ` set x \<subseteq> keyword ` set acc \<union> set (q # rest)"
        by auto
    qed
    from k have "Suc k \<le> length (q # rest)" by simp
    with e s show ?thesis by blast
  qed
qed

text \<open>
  C10. \<open>_search_and_summarize_news\<close> depends on the first five keywords only: its result
  and its trace are those of the call with the list cut to five. The requests it makes
  are, in order, those for the first \<open>k\<close> keywords, \<open>k\<close> at most five, each with the
  article count clamped into 1..10; they are followed by at most one completion request,
  whose news items all carry one of the first five keywords.
\<close>

theorem summarize_first_five_keywords:
  "search_and_summarize_news env keywords n c w
     = search_and_summarize_news env (take 5 keywords) n c w
   \<and> (\<exists>k rest. k \<le> min 5 (length keywords)
        \<and> events (snd (search_and_summarize_news env keywords n c w))
            = events w @ map (keyword_request (naver_headers env) (max 1 (min (dflt 5 n) 10)))
                (take k keywords) @ rest
        \<and> (rest = [] \<or> (\<exists>news curation. rest = [Completion news curation]
              \<and> keyword ` set news \<subseteq> set (take 5 keywords))))
   \<and> 1 \<le> max 1 (min (dflt 5 n) 10) \<and> max 1 (min (dflt 5 n) 10) \<le> (10::int)"
proof -
  let ?n = "max 1 (min (dflt 5 n) 10)"
  let ?h = "naver_headers env"
  let ?w = "ensure_session w"
  let ?P = "\<lambda>k rest. k \<le> min 5 (length keywords)
        \<and> events (snd (search_and_summarize_news env keywords n c w))
            = events w @ map (keyword_request ?h ?n) (take k keywords) @ rest
        \<and> (rest = [] \<or> (\<exists>news curation. rest = [Completion news curation]
              \<and> keyword ` set news \<subseteq> set (take 5 keywords)))"
  have same: "search_and_summarize_news env keywords n c w
     = search_and_summarize_news env (take 5 keywords) n c w"
    by (simp add: search_and_summarize_news_def Let_def)
  have trace: "\<exists>k rest. ?P k rest"
  proof (cases "\<not> truthy (client_id env) \<or> \<not> truthy (client_secret env) \<or> \<not> claude_client env")
    case True
    then have "events (snd (search_and_summarize_news env keywords n c w)) = events w"
      by (auto simp: search_and_summarize_news_def Let_def ensure_session_events)
    then have "?P 0 []" by simp
    then show ?thesis by blast
  next
    case False
    obtain r w' where loop: "summarize_loop env ?h ?n (take 5 keywords) [] ?w = (r, w')"
      by (cases "summarize_loop env ?h ?n (take 5 keywords) [] ?w")
    from summarize_loop_trace [OF loop]
    obtain k where k: "k \<le> length (take 5 keywords)"
      and ev: "events w' = events ?w @ map (keyword_request ?h ?n) (take k (take 5 keywords))"
      and kw: "\<forall>x. r = Inr x \<longrightarrow> keyword ` set x \<subseteq> set (take 5 keywords)"
      by auto
    from k have k5: "k \<le> min 5 (length keywords)" by simp
    then have "k \<le> 5" by simp
    then have tk: "take k (take 5 keywords) = take k keywords" by (simp add: min_absorb1)
    from ev tk have ev': "events w' = events w @ map (keyword_request ?h ?n) (take k keywords)"
      by (simp add: ensure_session_events)
    show ?thesis
    proof (cases r)
      case (Inl e)
      with False loop have "snd (search_and_summarize_news env keywords n c w) = w'"
        by (simp add: search_and_summarize_news_def Let_def)
      with ev' k5 have "?P k []" by simp
      then show ?thesis by blast
    next
      case (Inr news)
      show ?thesis
      proof (cases "news = []")
        case True
        with Inr False loop have "snd (search_and_summarize_news env keywords n c w) = w'"
          by (simp add: search_and_summarize_news_def Let_def)
        with ev' k5 have "?P k []" by simp
        then show ?thesis by blast
      next
        case ne: False
        let ?cur = "if dflt True c then Some (take 5 keywords) else None"
        from ne Inr False loop
        have "snd (search_and_summarize_news env keywords n c w)
            = w'\<lparr>events := events w' @ [Completion news ?cur]\<rparr>"
          by (simp add: search_and_summarize_news_def Let_def)
        moreover from kw Inr have "keyword ` set news \<subseteq> set (take 5 keywords)" by simp
        ultimately have "?P k [Completion news ?cur]"
          using ev' k5 by simp
        then show ?thesis by blast
      qed
    qed
  qed
  show ?thesis
  proof (intro conjI)
    show "search_and_summarize_news env keywords n c w
        = search_and_summarize_news env (take 5 keywords) n c w"
      by (rule same)
    show "\<exists>k rest. k \<le> min 5 (length keywords)
        \<and> events (snd (search_and_summarize_news env keywords n c w))
            = events w @ map (keyword_request ?h ?n) (take k keywords) @ rest
        \<and> (rest = [] \<or> (\<exists>news curation. rest = [Completion news curation]
              \<and> keyword ` set news \<subseteq> set (take 5 keywords)))"
      by (rule trace)
    show "1 \<le> ?n" by simp
    show "?n \<le> 10" by simp
  qed
qed

theorem summarize_first_five_keywords_witness:
  "search_and_summarize_news demo_env
      [str ''k1'', str ''k2'', str ''topic'', str ''x'', str ''y'', str ''many'', str ''z''] (Some 50) None world0
     = search_and_summarize_news demo_env
      (take 5 [str ''k1'', str ''k2'', str ''topic'', str ''x'', str ''y'', str ''many'', str ''z''])
      (Some 50) None world0
   \<and> map event_request (events (snd (search_and_summarize_news demo_env
      [str ''k1'', str ''k2'', str ''topic'', str ''x'', str ''y'', str ''many'', str ''z''] (Some 50) None world0)))
     = [Some (str ''k1'', 10), Some (str ''k2'', 10), Some (str ''topic'', 10), Some (str ''x'', 10),
        Some (str ''y'', 10), None]"
proof -
  have "map event_request (events (snd (search_and_summarize_news demo_env
      [str ''k1'', str ''k2'', str ''topic'', str ''x'', str ''y'', str ''many'', str ''z''] (Some 50) None world0)))
     = [Some (str ''k1'', 10), Some (str ''k2'', 10), Some (str ''topic'', 10), Some (str ''x'', 10),
        Some (str ''y'', 10), None]"
    by (simp add: search_and_summarize_news_def claude_client_def demo_eval)
  with summarize_first_five_keywords [of demo_env
      "[str ''k1'', str ''k2'', str ''topic'', str ''x'', str ''y'', str ''many'', str ''z'']"
      "Some 50" None world0, THEN conjunct1]
  show ?thesis by (intro conjI)
qed

end
